theory Spec2Isabelle
  imports Complex_Main
begin

section \<open>Tensors and errors\<close>

text \<open>
  The program is \<^verbatim>\<open>src/model/model.py\<close>: an \<^verbatim>\<open>Encoder\<close>, a \<^verbatim>\<open>PolicyNet\<close> and the
  function \<^verbatim>\<open>optimize_model\<close>, written on top of a tensor library. Tensor entries are
  reals; arithmetic is exact, except in the section on rounded arithmetic, where every
  operation of \<^verbatim>\<open>optimize_model\<close> is rounded to the number format. A tensor of shape \<open>(n,)\<close> is a list of reals,
  a tensor of shape \<open>(rows, cols)\<close> is the list of its rows. Every Python exception the
  source can raise is a value of \<open>error\<close>; a function that can raise returns
  \<open>error + 'a\<close> with \<open>Inl\<close> for the exception.
\<close>

type_synonym tensor1 = "real list"
type_synonym tensor2 = "real list list"

datatype error =
    TypeError       \<comment> \<open>an operation applied to \<^verbatim>\<open>None\<close>\<close>
  | AttributeError  \<comment> \<open>an attribute read from \<^verbatim>\<open>None\<close>\<close>
  | IndexError      \<comment> \<open>an index out of range\<close>
  | RuntimeError    \<comment> \<open>raised by the tensor library: it rejects its arguments\<close>

section \<open>optimize\_model: reward-to-go and loss (lines 165--189)\<close>

text \<open>
  Lines 176--178. \<^verbatim>\<open>rtg = torch.zeros(n)\<close>, then for \<open>i = n-1, ..., 0\<close>:
  \<^verbatim>\<open>rtg[i] = rewards[i] + (GAMMA * rtg[i+1] if i + 1 < n else 0)\<close>.
  \<open>rtg_assign\<close> is one execution of the loop body on the tensor \<open>rtg\<close>.
\<close>

definition rtg_assign :: "real \<Rightarrow> tensor1 \<Rightarrow> nat \<Rightarrow> nat \<Rightarrow> tensor1 \<Rightarrow> tensor1" where
  "rtg_assign GAMMA rewards n i rtg =
     rtg[i := rewards ! i + (if i + 1 < n then GAMMA * rtg ! (i + 1) else 0)]"

definition reward_to_go :: "real \<Rightarrow> tensor1 \<Rightarrow> tensor1" where
  "reward_to_go GAMMA rewards =
     (let n = length rewards;
          rtg = replicate n 0
      in fold (rtg_assign GAMMA rewards n) (rev [0..<n]) rtg)"

text \<open>
  The product \<^verbatim>\<open>batch_log_prob[i] * batch_weight[i]\<close> of two tensors of shape \<open>(n,)\<close> and
  \<open>(m,)\<close>: elementwise when \<open>n = m\<close>, broadcast when one of them has one entry, and
  rejected by the library otherwise.
\<close>

definition mul1 :: "tensor1 \<Rightarrow> tensor1 \<Rightarrow> error + tensor1" where
  "mul1 a b =
     (if length a = length b then Inr (map2 (*) a b)
      else if length a = 1 then Inr (map (\<lambda>y. hd a * y) b)
      else if length b = 1 then Inr (map (\<lambda>x. x * hd b) a)
      else Inl RuntimeError)"

text \<open>
  Lines 182--187, the loop over \<^verbatim>\<open>range(batch_size)\<close>. \<^verbatim>\<open>loss\<close> starts as \<^verbatim>\<open>None\<close>.
  \<^verbatim>\<open>batch_weight\<close> has one entry per reward sequence, so \<^verbatim>\<open>batch_weight[i]\<close> raises
  when there are fewer reward sequences than log-probability sequences.
\<close>

fun loss_loop :: "tensor1 list \<Rightarrow> tensor1 list \<Rightarrow> nat list \<Rightarrow> real option \<Rightarrow> error + real option" where
  "loss_loop batch_log_prob batch_weight [] loss = Inr loss"
| "loss_loop batch_log_prob batch_weight (i # rest) loss =
     (if length batch_weight \<le> i then Inl IndexError
      else case mul1 (batch_log_prob ! i) (batch_weight ! i) of
             Inl e \<Rightarrow> Inl e
           | Inr p \<Rightarrow>
               loss_loop batch_log_prob batch_weight rest
                 (Some (case loss of None \<Rightarrow> - sum_list p | Some l \<Rightarrow> l + - sum_list p)))"

text \<open>
  Lines 169--189: the scalar \<^verbatim>\<open>loss\<close> on which line 192 calls \<^verbatim>\<open>backward()\<close>. With an
  empty batch \<^verbatim>\<open>loss\<close> is still \<^verbatim>\<open>None\<close> at line 189 and the division raises.
\<close>

definition optimize_model_loss :: "real \<Rightarrow> tensor1 list \<Rightarrow> tensor1 list \<Rightarrow> error + real" where
  "optimize_model_loss GAMMA batch_log_prob batch_rewards =
     (let batch_size = length batch_log_prob;
          batch_weight = map (reward_to_go GAMMA) batch_rewards
      in case loss_loop batch_log_prob batch_weight [0..<batch_size] None of
           Inl e \<Rightarrow> Inl e
         | Inr None \<Rightarrow> Inl TypeError
         | Inr (Some loss) \<Rightarrow> Inr (loss / real batch_size))"


text \<open>
  A structural recursion that computes the same sequence as the loop of lines 176--178;
  it is used only to reason about \<open>reward_to_go\<close>.
\<close>

fun rtg_rec :: "real \<Rightarrow> tensor1 \<Rightarrow> tensor1" where
  "rtg_rec g [] = []"
| "rtg_rec g (r # rs) =
     (r + (case rtg_rec g rs of [] \<Rightarrow> 0 | x # _ \<Rightarrow> g * x)) # rtg_rec g rs"

text \<open>
  \<open>\<Sum>\<^sub>t lp[t] * w[t]\<close>, the value of \<^verbatim>\<open>torch.sum(lp * w)\<close> for two tensors of the same
  length; used to state properties of the loss.
\<close>

definition episode_sum :: "tensor1 \<Rightarrow> tensor1 \<Rightarrow> real" where
  "episode_sum lp w = (\<Sum>t<length lp. lp ! t * w ! t)"

section \<open>PolicyNet (lines 39--162)\<close>

text \<open>
  The layers and distributions come from the tensor library; what the source fixes is
  how they are wired. They are parameters of the model:
  \<^item> an \<^verbatim>\<open>LSTMCell\<close> is a function from the input and the pair (hidden state, cell state)
    to the new pair;
  \<^item> a \<^verbatim>\<open>Linear(in, out)\<close> layer maps every row of its input to a row of \<open>out\<close>
    entries; \<open>row_fn l row j\<close> is entry \<open>j\<close> of the image of \<open>row\<close>;
  \<^item> the random draws of one call of \<^verbatim>\<open>forward\<close> and the log-densities of the two
    distributions are the fields of \<open>torch_dist\<close>.
\<close>

type_synonym cell = "tensor2 \<Rightarrow> tensor2 \<times> tensor2 \<Rightarrow> tensor2 \<times> tensor2"

record linear =
  out_features :: nat
  row_fn :: "real list \<Rightarrow> nat \<Rightarrow> real"

definition Linear_forward :: "linear \<Rightarrow> tensor2 \<Rightarrow> tensor2" where
  "Linear_forward l x = map (\<lambda>row. map (row_fn l row) [0..<out_features l]) x"

record torch_dist =
  categorical_sample :: "nat \<Rightarrow> nat"
    \<comment> \<open>the category that \<^verbatim>\<open>m_decision.sample()\<close> draws for batch row \<open>b\<close>\<close>
  categorical_log_prob :: "real list \<Rightarrow> real list \<Rightarrow> real"
    \<comment> \<open>logits of a row and a one-hot sample to its log-probability\<close>
  normal_sample :: "nat \<Rightarrow> nat \<Rightarrow> real"
    \<comment> \<open>the value that the Normal of dimension \<open>i\<close> draws for batch row \<open>b\<close>\<close>
  normal_log_prob :: "real \<Rightarrow> real \<Rightarrow> real \<Rightarrow> real"
    \<comment> \<open>mean, standard deviation and value to the log-density\<close>

record policy_net =
  state_size :: nat
  num_actions :: nat
  act_lim :: real
  batch_size :: nat
  hidden_size :: nat
  num_layers :: nat
  dropout :: real
  cell_list :: "cell list"
  FC_decision :: linear
  FC_values_mean :: linear
  FC_values_logstd :: linear
  h_list :: "tensor2 list option"
  c_list :: "tensor2 list option"

text \<open>
  Lines 41--80, \<^verbatim>\<open>__init__\<close>. \<open>LSTMCell i\<close> is the cell the library builds for layer \<open>i\<close>;
  \<open>dec\<close>, \<open>mean\<close> and \<open>logstd\<close> are the row functions of the three linear layers, each
  built with \<^verbatim>\<open>num_actions\<close> output features.
\<close>

definition PolicyNet_init ::
  "(nat \<Rightarrow> cell) \<Rightarrow> (real list \<Rightarrow> nat \<Rightarrow> real) \<Rightarrow> (real list \<Rightarrow> nat \<Rightarrow> real) \<Rightarrow>
   (real list \<Rightarrow> nat \<Rightarrow> real) \<Rightarrow> nat \<Rightarrow> nat \<Rightarrow> real \<Rightarrow> nat \<Rightarrow> nat \<Rightarrow> nat \<Rightarrow> real \<Rightarrow> policy_net" where
  "PolicyNet_init LSTMCell dec mean logstd
      state_sz n_actions a_lim batch_sz hidden_sz n_layers drop_p =
     \<lparr> state_size = state_sz, num_actions = n_actions, act_lim = a_lim,
       batch_size = batch_sz, hidden_size = hidden_sz, num_layers = n_layers, dropout = drop_p,
       cell_list = LSTMCell 0 # map LSTMCell [1..<n_layers],
       FC_decision = \<lparr> out_features = n_actions, row_fn = dec \<rparr>,
       FC_values_mean = \<lparr> out_features = n_actions, row_fn = mean \<rparr>,
       FC_values_logstd = \<lparr> out_features = n_actions, row_fn = logstd \<rparr>,
       h_list = None, c_list = None \<rparr>"

text \<open>Tensor operations used by \<^verbatim>\<open>forward\<close>.\<close>

definition zeros :: "nat \<Rightarrow> nat \<Rightarrow> tensor2" where
  "zeros r c = replicate r (replicate c 0)"

definition scale2 :: "tensor2 \<Rightarrow> real \<Rightarrow> tensor2" where
  "scale2 t x = map (map (\<lambda>v. v * x)) t"

definition unsqueeze1 :: "tensor1 \<Rightarrow> tensor2" where
  "unsqueeze1 v = map (\<lambda>x. [x]) v"

text \<open>\<^verbatim>\<open>t[:, i]\<close>: column \<open>i\<close>.\<close>

definition col :: "tensor2 \<Rightarrow> nat \<Rightarrow> error + tensor1" where
  "col t i = (if list_all (\<lambda>r. i < length r) t then Inr (map (\<lambda>r. r ! i) t) else Inl IndexError)"

text \<open>\<^verbatim>\<open>torch.cat([a, b], dim=1)\<close>: the rows of \<open>b\<close> appended to the rows of \<open>a\<close>.\<close>

definition cat1 :: "tensor2 \<Rightarrow> tensor2 \<Rightarrow> error + tensor2" where
  "cat1 a b = (if length a = length b then Inr (map2 (@) a b) else Inl RuntimeError)"

text \<open>
  \<^verbatim>\<open>a * b\<close> for two tensors of the same shape. (The library also broadcasts a
  dimension of size one; in \<^verbatim>\<open>forward\<close> both operands come with the shape
  \<open>(batch, num_actions)\<close>.)
\<close>

definition mul2 :: "tensor2 \<Rightarrow> tensor2 \<Rightarrow> error + tensor2" where
  "mul2 a b = (if map length a = map length b then Inr (map2 (map2 (*)) a b) else Inl RuntimeError)"

definition one_hot :: "nat \<Rightarrow> nat \<Rightarrow> real list" where
  "one_hot k j = map (\<lambda>i. if i = j then 1 else 0) [0..<k]"

text \<open>
  \<^verbatim>\<open>OneHotCategorical(logits=decision_logit)\<close>: \<^verbatim>\<open>sample()\<close> returns, for every row, the
  indicator vector of the drawn category, as wide as the row of logits.
\<close>

definition OneHotCategorical_sample :: "torch_dist \<Rightarrow> tensor2 \<Rightarrow> tensor2" where
  "OneHotCategorical_sample D logits =
     map (\<lambda>b. one_hot (length (logits ! b)) (categorical_sample D b)) [0..<length logits]"

definition OneHotCategorical_log_prob :: "torch_dist \<Rightarrow> tensor2 \<Rightarrow> tensor2 \<Rightarrow> tensor1" where
  "OneHotCategorical_log_prob D logits decision = map2 (categorical_log_prob D) logits decision"

text \<open>\<^verbatim>\<open>Normal(mean, std).log_prob(x)\<close> on tensors of shape \<open>(batch,)\<close>.\<close>

definition Normal_log_prob :: "torch_dist \<Rightarrow> tensor1 \<Rightarrow> tensor1 \<Rightarrow> tensor1 \<Rightarrow> tensor1" where
  "Normal_log_prob D mu sd x =
     map (\<lambda>(m, s, v). normal_log_prob D m s v) (zip mu (zip sd x))"

text \<open>
  Lines 92--95. The list literal has ONE element, the zero tensor multiplied by
  \<^verbatim>\<open>num_layers\<close>; then entry 0 of \<^verbatim>\<open>h_list\<close> is replaced by the encoding.
\<close>

definition reset_state :: "policy_net \<Rightarrow> tensor2 \<Rightarrow> policy_net" where
  "reset_state pn encoding =
     (let h = [scale2 (zeros (batch_size pn) (hidden_size pn)) (real (num_layers pn))];
          c = [scale2 (zeros (batch_size pn) (hidden_size pn)) (real (num_layers pn))]
      in pn\<lparr> h_list := Some (h[0 := encoding]), c_list := Some c \<rparr>)"

text \<open>
  Lines 105--108, the loop over \<^verbatim>\<open>range(1, num_layers)\<close>; \<open>hs\<close> and \<open>cs\<close> are
  \<^verbatim>\<open>self.h_list\<close> and \<^verbatim>\<open>self.c_list\<close>, which the loop reads at index 0 and does not
  modify. The accumulator is \<^verbatim>\<open>(h_1, h1_list, c1_list)\<close>.
\<close>

fun following_layers ::
  "cell list \<Rightarrow> tensor2 list \<Rightarrow> tensor2 list \<Rightarrow> nat list \<Rightarrow>
   tensor2 \<times> tensor2 list \<times> tensor2 list \<Rightarrow> error + (tensor2 \<times> tensor2 list \<times> tensor2 list)" where
  "following_layers cells hs cs [] acc = Inr acc"
| "following_layers cells hs cs (i # rest) (h_1, h1_list, c1_list) =
     (if length cells \<le> i then Inl IndexError
      else case (cells ! i) h_1 (hs ! 0, cs ! 0) of
             (h_1', c_1') \<Rightarrow>
               following_layers cells hs cs rest (h_1', h1_list @ [h_1'], c1_list @ [c_1']))"

text \<open>
  Lines 92--111: the recurrent part of \<^verbatim>\<open>forward\<close>. It returns the net with its stored
  state and either the exception raised or \<^verbatim>\<open>h_1\<close>, the hidden output of the last layer.
  Reading index 0 of \<^verbatim>\<open>None\<close> raises a TypeError, of an empty list an IndexError.
\<close>

definition forward_rnn :: "policy_net \<Rightarrow> tensor2 \<Rightarrow> tensor2 option \<Rightarrow> policy_net \<times> (error + tensor2)" where
  "forward_rnn pn state encoding =
     (let pn1 = (case encoding of None \<Rightarrow> pn | Some e \<Rightarrow> reset_state pn e)
      in case cell_list pn1 of
           [] \<Rightarrow> (pn1, Inl IndexError)
         | cell0 # _ \<Rightarrow>
            (case h_list pn1 of
               None \<Rightarrow> (pn1, Inl TypeError)
             | Some hs \<Rightarrow>
                (if hs = [] then (pn1, Inl IndexError)
                 else case c_list pn1 of
                   None \<Rightarrow> (pn1, Inl TypeError)
                 | Some cs \<Rightarrow>
                    (if cs = [] then (pn1, Inl IndexError)
                     else case cell0 state (hs ! 0, cs ! 0) of
                       (h_1, c_1) \<Rightarrow>
                         (case following_layers (cell_list pn1) hs cs [1..<num_layers pn1]
                                 (h_1, [h_1], [c_1]) of
                            Inl e \<Rightarrow> (pn1, Inl e)
                          | Inr (h_1', h1_list, c1_list) \<Rightarrow>
                              (pn1\<lparr> h_list := Some h1_list, c_list := Some c1_list \<rparr>,
                               Inr h_1'))))))"

text \<open>
  Lines 134--141, one iteration of the loop over \<^verbatim>\<open>range(num_actions - 1)\<close>. The two
  accumulators \<^verbatim>\<open>action_values\<close> and \<^verbatim>\<open>actions_log_prob\<close> are assigned together, so they
  are one optional pair: \<^verbatim>\<open>None\<close> before the first iteration.
\<close>

definition sample_step ::
  "torch_dist \<Rightarrow> tensor2 \<Rightarrow> tensor2 \<Rightarrow> nat \<Rightarrow> (tensor2 \<times> tensor2) option \<Rightarrow>
   error + (tensor2 \<times> tensor2) option" where
  "sample_step D values_mean values_std i acc =
     (case col values_mean i of
        Inl e \<Rightarrow> Inl e
      | Inr mu \<Rightarrow>
         (case col values_std i of
            Inl e \<Rightarrow> Inl e
          | Inr sd \<Rightarrow>
             (let smp = map (normal_sample D i) [0..<length mu]
              in case acc of
                   None \<Rightarrow>
                     (let action_values = unsqueeze1 smp;
                          actions_log_prob =
                            unsqueeze1 (Normal_log_prob D mu sd (map last action_values))
                      in Inr (Some (action_values, actions_log_prob)))
                 | Some (action_values0, actions_log_prob0) \<Rightarrow>
                     (case cat1 action_values0 (unsqueeze1 smp) of
                        Inl e \<Rightarrow> Inl e
                      | Inr action_values \<Rightarrow>
                         (case cat1 actions_log_prob0
                                 (unsqueeze1 (Normal_log_prob D mu sd (map last action_values))) of
                            Inl e \<Rightarrow> Inl e
                          | Inr actions_log_prob \<Rightarrow>
                              Inr (Some (action_values, actions_log_prob)))))))"

fun sample_loop ::
  "torch_dist \<Rightarrow> tensor2 \<Rightarrow> tensor2 \<Rightarrow> nat list \<Rightarrow> (tensor2 \<times> tensor2) option \<Rightarrow>
   error + (tensor2 \<times> tensor2) option" where
  "sample_loop D values_mean values_std [] acc = Inr acc"
| "sample_loop D values_mean values_std (i # rest) acc =
     (case sample_step D values_mean values_std i acc of
        Inl e \<Rightarrow> Inl e
      | Inr acc' \<Rightarrow> sample_loop D values_mean values_std rest acc')"

text \<open>
  Lines 113--162: from \<^verbatim>\<open>h_1\<close> to the returned triple
  \<^verbatim>\<open>(decision, final_action_values, log_prob)\<close>. At line 144 \<^verbatim>\<open>torch.cat\<close> is applied to
  \<^verbatim>\<open>action_values\<close>, which is still \<^verbatim>\<open>None\<close> when the loop did not run: a TypeError.
\<close>

definition forward_head ::
  "policy_net \<Rightarrow> torch_dist \<Rightarrow> tensor2 \<Rightarrow> error + (tensor2 \<times> tensor1 \<times> tensor1)" where
  "forward_head pn D h_1 =
     (let decision_logit = Linear_forward (FC_decision pn) h_1;
          values_mean = Linear_forward (FC_values_mean pn) h_1;
          values_logstd = Linear_forward (FC_values_logstd pn) h_1;
          values_std = map (map exp) values_logstd;
          decision = OneHotCategorical_sample D decision_logit;
          decision_log_prob = OneHotCategorical_log_prob D decision_logit decision
      in case sample_loop D values_mean values_std [0..<num_actions pn - 1] None of
           Inl e \<Rightarrow> Inl e
         | Inr None \<Rightarrow> Inl TypeError
         | Inr (Some (action_values0, actions_log_prob0)) \<Rightarrow>
            (case cat1 action_values0 (zeros (batch_size pn) 1) of
               Inl e \<Rightarrow> Inl e
             | Inr action_values \<Rightarrow>
                (case cat1 actions_log_prob0 (zeros (batch_size pn) 1) of
                   Inl e \<Rightarrow> Inl e
                 | Inr actions_log_prob \<Rightarrow>
                    (case mul2 action_values decision of
                       Inl e \<Rightarrow> Inl e
                     | Inr av \<Rightarrow>
                        (case mul2 actions_log_prob decision of
                           Inl e \<Rightarrow> Inl e
                         | Inr alp \<Rightarrow>
                            (let final_action_values =
                                   map (\<lambda>x. x * act_lim pn) (map sum_list av);
                                 final_action_log_prob = map sum_list alp;
                                 log_prob = map2 (+) decision_log_prob final_action_log_prob
                             in Inr (decision, final_action_values, log_prob)))))))"

text \<open>
  \<^verbatim>\<open>PolicyNet.forward(state, encoding)\<close>: the net after the call (its recurrent state is
  stored at lines 110--111, before the rest can raise) and the exception or the
  returned triple.
\<close>

definition forward ::
  "policy_net \<Rightarrow> torch_dist \<Rightarrow> tensor2 \<Rightarrow> tensor2 option \<Rightarrow>
   policy_net \<times> (error + (tensor2 \<times> tensor1 \<times> tensor1))" where
  "forward pn D state encoding =
     (case forward_rnn pn state encoding of
        (pn', Inl e) \<Rightarrow> (pn', Inl e)
      | (pn', Inr h_1) \<Rightarrow> (pn', forward_head pn' D h_1))"

text \<open>
  What \<^verbatim>\<open>__init__\<close> establishes and no later statement changes: one cell per layer (at
  least one), and \<^verbatim>\<open>num_actions\<close> output features in each linear layer.
\<close>

definition constructed :: "policy_net \<Rightarrow> bool" where
  "constructed pn \<longleftrightarrow>
     length (cell_list pn) = max 1 (num_layers pn) \<and>
     out_features (FC_decision pn) = num_actions pn \<and>
     out_features (FC_values_mean pn) = num_actions pn \<and>
     out_features (FC_values_logstd pn) = num_actions pn"

text \<open>
  Concrete inputs for evaluating the model: a cell that adds the hidden carry to its
  input and passes the cell carry on, a net built by \<open>PolicyNet_init\<close> with
  \<open>state_size = batch_size = hidden_size = 1\<close> and \<open>act_lim = 2\<close>, and fixed draws.
\<close>

definition example_cell :: cell where
  "example_cell x hc = (map2 (map2 (+)) x (fst hc), snd hc)"

definition example_net :: "nat \<Rightarrow> nat \<Rightarrow> policy_net" where
  "example_net k nl =
     PolicyNet_init (\<lambda>i. example_cell) (\<lambda>row j. sum_list row + real j) (\<lambda>row j. real j)
       (\<lambda>row j. 0) 1 k 2 1 1 nl (85 / 100)"

definition example_dist :: "nat \<Rightarrow> torch_dist" where
  "example_dist j =
     \<lparr> categorical_sample = (\<lambda>b. j), categorical_log_prob = (\<lambda>logits d. - 1),
       normal_sample = (\<lambda>i b. 3), normal_log_prob = (\<lambda>m s v. - 2) \<rparr>"

section \<open>optimize\_model: the update (lines 191--196)\<close>

text \<open>
  A log-probability tensor carries, besides its entries, whether it was produced with
  gradient tracking (\<^verbatim>\<open>requires_grad\<close>); a parameter of the net has its entries and its
  \<^verbatim>\<open>.grad\<close>, which is \<^verbatim>\<open>None\<close> or a tensor. Rewards are plain data. What the optimizer
  and the autodiff runtime compute is a parameter of the model: \<open>zero_grad_fn\<close> is what
  \<^verbatim>\<open>optimizer.zero_grad()\<close> leaves in a \<^verbatim>\<open>.grad\<close>, \<open>backward_fn\<close> the \<^verbatim>\<open>.grad\<close> that
  \<^verbatim>\<open>loss.backward()\<close> stores in a parameter, \<open>step_fn\<close> is \<^verbatim>\<open>optimizer.step()\<close>.
\<close>

record log_prob_tensor =
  lp_data :: tensor1
  lp_requires_grad :: bool

record param =
  p_data :: tensor1
  p_grad :: "tensor1 option"

record torch_optim =
  zero_grad_fn :: "tensor1 option \<Rightarrow> tensor1 option"
  backward_fn :: "param \<Rightarrow> tensor1 option"
  step_fn :: "param list \<Rightarrow> param list"

text \<open>
  Modelled from the spec: \<^verbatim>\<open>loss.backward()\<close>, a function of the autodiff runtime that
  is not in the repository. By section 7 (b) of the specification, the runtime reports
  log-probabilities detached from the computation graph as an error at update time;
  that is the runtime's documented behaviour for a loss that no tracked tensor went
  into. Otherwise it stores a gradient in the parameters and changes nothing else.
\<close>

definition backward :: "torch_optim \<Rightarrow> bool \<Rightarrow> param list \<Rightarrow> error + param list" where
  "backward T loss_requires_grad params =
     (if \<not> loss_requires_grad then Inl RuntimeError
      else Inr (map (\<lambda>p. p\<lparr> p_grad := backward_fn T p \<rparr>) params))"

definition clamp :: "real \<Rightarrow> real \<Rightarrow> real \<Rightarrow> real" where
  "clamp lo hi x = min hi (max lo x)"

text \<open>
  Lines 194--195, the loop over the parameters: \<^verbatim>\<open>param.grad.data.clamp_(-1, 1)\<close> reads
  an attribute of \<^verbatim>\<open>param.grad\<close>, which raises when it is \<^verbatim>\<open>None\<close>; the parameters
  before that one are already clamped.
\<close>

fun clamp_grads :: "param list \<Rightarrow> param list \<times> error option" where
  "clamp_grads [] = ([], None)"
| "clamp_grads (p # ps) =
     (case p_grad p of
        None \<Rightarrow> (p # ps, Some AttributeError)
      | Some g \<Rightarrow>
         (case clamp_grads ps of
            (ps', e) \<Rightarrow> (p\<lparr> p_grad := Some (map (clamp (- 1) 1) g) \<rparr> # ps', e)))"

text \<open>
  \<^verbatim>\<open>optimize_model\<close>, lines 165--196, on the parameters of the net: the parameters after
  the call and the exception raised, if any. The loss of line 189 requires a gradient
  when one of the log-probability tensors it is computed from does.
\<close>

definition optimize_model ::
  "torch_optim \<Rightarrow> param list \<Rightarrow> log_prob_tensor list \<Rightarrow> tensor1 list \<Rightarrow> real \<Rightarrow>
   param list \<times> error option" where
  "optimize_model T params batch_log_prob batch_rewards GAMMA =
     (case optimize_model_loss GAMMA (map lp_data batch_log_prob) batch_rewards of
        Inl e \<Rightarrow> (params, Some e)
      | Inr loss \<Rightarrow>
         (let params1 = map (\<lambda>p. p\<lparr> p_grad := zero_grad_fn T (p_grad p) \<rparr>) params
          in case backward T (list_ex lp_requires_grad batch_log_prob) params1 of
               Inl e \<Rightarrow> (params1, Some e)
             | Inr params2 \<Rightarrow>
                (case clamp_grads params2 of
                   (params3, Some e) \<Rightarrow> (params3, Some e)
                 | (params3, None) \<Rightarrow> (step_fn T params3, None))))"

definition example_optim :: torch_optim where
  "example_optim =
     \<lparr> zero_grad_fn = (\<lambda>g. None), backward_fn = (\<lambda>p. Some (map (\<lambda>x. 3) (p_data p))),
       step_fn = map (\<lambda>p. p\<lparr> p_data := map2 (-) (p_data p) (the (p_grad p)) \<rparr>) \<rparr>"

section \<open>Encoder (lines 8--36)\<close>

text \<open>
  \<^verbatim>\<open>Encoder.forward\<close> is modelled on shapes: a shape is the list of the sizes of the
  dimensions of a tensor. The input is a tensor of rank three, of shape
  \<open>(batch, seq_len, in_size)\<close>.
\<close>

type_synonym shape = "nat list"

record encoder =
  input_size_E :: nat
  batch_size_E :: nat
  hidden_size_E :: nat
  num_layers_E :: nat
  dropout_E :: real

definition Encoder_init :: "nat \<Rightarrow> nat \<Rightarrow> nat \<Rightarrow> nat \<Rightarrow> real \<Rightarrow> encoder" where
  "Encoder_init in_size batch_sz hidden_sz n_layers drop_p =
     \<lparr> input_size_E = in_size, batch_size_E = batch_sz, hidden_size_E = hidden_sz,
       num_layers_E = n_layers, dropout_E = drop_p \<rparr>"

text \<open>
  The shape of \<^verbatim>\<open>h_n\<close> that the library's \<^verbatim>\<open>LSTM\<close> (built with \<^verbatim>\<open>batch_first=True\<close>)
  returns: \<open>(num_layers, batch_size, hidden_size)\<close>, as line 31 states. The library rejects
  an input whose last dimension is not \<^verbatim>\<open>input_size\<close>, and initial states \<^verbatim>\<open>h_0\<close>,
  \<^verbatim>\<open>c_0\<close> that do not have the shape of \<^verbatim>\<open>h_n\<close>; they are passed on only when both are
  given (line 27).
\<close>

definition LSTM_h_n :: "encoder \<Rightarrow> nat \<times> nat \<times> nat \<Rightarrow> shape option \<Rightarrow> shape option \<Rightarrow> error + shape" where
  "LSTM_h_n enc inp h_0 c_0 =
     (case inp of (batch, seq_len, in_size) \<Rightarrow>
        (let out = [num_layers_E enc, batch, hidden_size_E enc]
         in if in_size \<noteq> input_size_E enc then Inl RuntimeError
            else case (h_0, c_0) of
                   (Some h, Some c) \<Rightarrow> if h = out \<and> c = out then Inr out else Inl RuntimeError
                 | _ \<Rightarrow> Inr out))"

text \<open>\<^verbatim>\<open>t[-1, :, :]\<close>: the last entry along the first dimension, which must not be empty.\<close>

definition index_last :: "shape \<Rightarrow> error + shape" where
  "index_last sh =
     (case sh of [] \<Rightarrow> Inl IndexError
      | n # rest \<Rightarrow> if n = 0 then Inl IndexError else Inr rest)"

text \<open>
  \<^verbatim>\<open>t.squeeze(d)\<close> of the tensor library: dimension \<open>d\<close> is removed when its size is 1,
  and the tensor is returned as it is otherwise.
\<close>

definition squeeze :: "nat \<Rightarrow> shape \<Rightarrow> error + shape" where
  "squeeze d sh =
     (if length sh \<le> d then Inl IndexError
      else if sh ! d = 1 then Inr (take d sh @ drop (Suc d) sh)
      else Inr sh)"

text \<open>Lines 22--36: the shape of the returned \<^verbatim>\<open>encoding\<close>.\<close>

definition Encoder_forward :: "encoder \<Rightarrow> nat \<times> nat \<times> nat \<Rightarrow> shape option \<Rightarrow> shape option \<Rightarrow> error + shape" where
  "Encoder_forward enc inp h_0 c_0 =
     (case LSTM_h_n enc inp h_0 c_0 of
        Inl e \<Rightarrow> Inl e
      | Inr h_n \<Rightarrow>
         (case index_last h_n of
            Inl e \<Rightarrow> Inl e
          | Inr encoding \<Rightarrow> squeeze 1 encoding))"

section \<open>optimize\_model with rounded arithmetic\<close>

text \<open>
  The tensors of \<^verbatim>\<open>optimize_model\<close> hold machine numbers, and every arithmetic operation
  on them returns the rounded exact result. The definitions of this section are those
  of \<open>reward_to_go\<close>, \<open>mul1\<close>, \<open>loss_loop\<close> and \<open>optimize_model_loss\<close> with the rounding
  \<open>rnd\<close> of the number format applied after every addition, multiplication and division
  (negation is exact); with \<open>rnd = (\<lambda>x. x)\<close> they are the exact ones
  (\<open>optimize_model_loss_fl_exact\<close>). The scalar \<^verbatim>\<open>GAMMA\<close> is converted to the format
  before it is multiplied; \<^verbatim>\<open>batch_size\<close> is a small integer, which the format holds
  exactly.
\<close>

definition rtg_assign_fl :: "(real \<Rightarrow> real) \<Rightarrow> real \<Rightarrow> tensor1 \<Rightarrow> nat \<Rightarrow> nat \<Rightarrow> tensor1 \<Rightarrow> tensor1" where
  "rtg_assign_fl rnd GAMMA rewards n i rtg =
     rtg[i := rnd (rewards ! i + (if i + 1 < n then rnd (rnd GAMMA * rtg ! (i + 1)) else 0))]"

definition reward_to_go_fl :: "(real \<Rightarrow> real) \<Rightarrow> real \<Rightarrow> tensor1 \<Rightarrow> tensor1" where
  "reward_to_go_fl rnd GAMMA rewards =
     (let n = length rewards;
          rtg = replicate n 0
      in fold (rtg_assign_fl rnd GAMMA rewards n) (rev [0..<n]) rtg)"

definition mul1_fl :: "(real \<Rightarrow> real) \<Rightarrow> tensor1 \<Rightarrow> tensor1 \<Rightarrow> error + tensor1" where
  "mul1_fl rnd a b =
     (if length a = length b then Inr (map2 (\<lambda>x y. rnd (x * y)) a b)
      else if length a = 1 then Inr (map (\<lambda>y. rnd (hd a * y)) b)
      else if length b = 1 then Inr (map (\<lambda>x. rnd (x * hd b)) a)
      else Inl RuntimeError)"

text \<open>
  \<^verbatim>\<open>torch.sum\<close>: the entries are added one after the other, every addition rounded.
  (The properties proved below use only that each addition is rounded.)
\<close>

definition sum_fl :: "(real \<Rightarrow> real) \<Rightarrow> tensor1 \<Rightarrow> real" where
  "sum_fl rnd xs = foldl (\<lambda>a x. rnd (a + x)) 0 xs"

fun loss_loop_fl ::
  "(real \<Rightarrow> real) \<Rightarrow> tensor1 list \<Rightarrow> tensor1 list \<Rightarrow> nat list \<Rightarrow> real option \<Rightarrow> error + real option" where
  "loss_loop_fl rnd batch_log_prob batch_weight [] loss = Inr loss"
| "loss_loop_fl rnd batch_log_prob batch_weight (i # rest) loss =
     (if length batch_weight \<le> i then Inl IndexError
      else case mul1_fl rnd (batch_log_prob ! i) (batch_weight ! i) of
             Inl e \<Rightarrow> Inl e
           | Inr p \<Rightarrow>
               loss_loop_fl rnd batch_log_prob batch_weight rest
                 (Some (case loss of None \<Rightarrow> - sum_fl rnd p
                        | Some l \<Rightarrow> rnd (l + - sum_fl rnd p))))"

definition optimize_model_loss_fl ::
  "(real \<Rightarrow> real) \<Rightarrow> real \<Rightarrow> tensor1 list \<Rightarrow> tensor1 list \<Rightarrow> error + real" where
  "optimize_model_loss_fl rnd GAMMA batch_log_prob batch_rewards =
     (let batch_size = length batch_log_prob;
          batch_weight = map (reward_to_go_fl rnd GAMMA) batch_rewards
      in case loss_loop_fl rnd batch_log_prob batch_weight [0..<batch_size] None of
           Inl e \<Rightarrow> Inl e
         | Inr None \<Rightarrow> Inl TypeError
         | Inr (Some loss) \<Rightarrow> Inr (rnd (loss / real batch_size)))"

text \<open>
  The rounding of the default number format of the tensor library, binary32: 24
  significant bits, smallest normal exponent \<open>-126\<close>, round to nearest, ties to the even
  significand. Numbers beyond the largest finite one, which the format turns into
  infinities, are outside this model.
\<close>

definition round_half_even :: "real \<Rightarrow> int" where
  "round_half_even y =
     (let f = \<lfloor>y\<rfloor>; d = y - of_int f
      in if d < 1 / 2 then f else if 1 / 2 < d then f + 1 else if even f then f else f + 1)"

definition f32_exponent :: "real \<Rightarrow> int" where
  "f32_exponent x = max (- 126) \<lfloor>log 2 \<bar>x\<bar>\<rfloor>"

definition round_f32 :: "real \<Rightarrow> real" where
  "round_f32 x =
     (if x = 0 then 0
      else let u = 2 powi (f32_exponent x - 23)
           in u * of_int (round_half_even (x / u)))"

section \<open>Properties of the reward-to-go loop\<close>

lemma length_rtg_rec [simp]: "length (rtg_rec g rs) = length rs"
  by (induction rs) auto

lemma rtg_assign_suffix:
  assumes "length R + Suc k = n"
  shows "rtg_assign g rs n k (replicate (Suc k) 0 @ R)
         = replicate k 0 @ (rs ! k + (case R of [] \<Rightarrow> 0 | x # _ \<Rightarrow> g * x)) # R"
proof -
  have "replicate (Suc k) (0::real) @ R = replicate k 0 @ 0 # R"
    by (simp add: replicate_app_Cons_same)
  moreover have "(replicate (Suc k) (0::real) @ R) ! Suc k = R ! 0"
    by (simp add: nth_append)
  ultimately show ?thesis using assms
    by (cases R) (auto simp: rtg_assign_def list_update_append simp del: replicate_Suc)
qed

text \<open>
  Loop invariant: once the indices \<open>n-1, ..., k\<close> are done, the tensor holds zeros below
  \<open>k\<close> and the reward-to-go of the suffix \<open>rewards[k:]\<close> from \<open>k\<close> on.
\<close>

lemma rtg_suffix:
  "k \<le> length rs \<Longrightarrow>
   foldr (rtg_assign g rs (length rs)) [k..<length rs] (replicate (length rs) 0)
     = replicate k 0 @ rtg_rec g (drop k rs)"
proof (induction "length rs - k" arbitrary: k)
  case 0
  then show ?case by simp
next
  case (Suc d)
  then have k: "k < length rs" by simp
  have IH: "foldr (rtg_assign g rs (length rs)) [Suc k..<length rs] (replicate (length rs) 0)
     = replicate (Suc k) 0 @ rtg_rec g (drop (Suc k) rs)"
    using Suc by simp
  have up: "[k..<length rs] = k # [Suc k..<length rs]" using k by (simp add: upt_conv_Cons)
  have dr: "drop k rs = rs ! k # drop (Suc k) rs" using k by (simp add: Cons_nth_drop_Suc)
  have len: "length (rtg_rec g (drop (Suc k) rs)) + Suc k = length rs" using k by simp
  show ?case
    unfolding up dr
    by (simp add: IH rtg_assign_suffix [OF len] del: replicate_Suc)
qed

lemma reward_to_go_rec: "reward_to_go g rs = rtg_rec g rs"
  using rtg_suffix [of 0 rs g] by (simp add: reward_to_go_def Let_def foldr_conv_fold)

lemma length_reward_to_go [simp]: "length (reward_to_go g rs) = length rs"
  by (simp add: reward_to_go_rec)

lemma rtg_rec_nth:
  "t < length rs \<Longrightarrow> rtg_rec g rs ! t = rs ! t + g * ((rtg_rec g rs @ [0]) ! Suc t)"
proof (induction rs arbitrary: t)
  case Nil
  then show ?case by simp
next
  case (Cons r rs)
  show ?case
  proof (cases t)
    case 0
    then show ?thesis by (cases "rtg_rec g rs") auto
  next
    case (Suc u)
    with Cons show ?thesis by simp
  qed
qed

text \<open>
  Claim C1. For a reward sequence of length \<open>n\<close> and a discount factor \<open>GAMMA\<close>, the
  tensor \<open>rtg\<close> that \<^verbatim>\<open>optimize_model\<close> computes has length \<open>n\<close> and satisfies
  \<open>rtg[t] = rewards[t] + GAMMA * rtg[t+1]\<close> for every \<open>t < n\<close>, where \<open>rtg[n]\<close> is read
  as \<open>0\<close> (the sequence extended by one zero); and for the rewards \<open>[1, 1, 1]\<close> with
  \<open>GAMMA = 0.5\<close> it is \<open>[1.75, 1.5, 1.0]\<close>.
\<close>

theorem reward_to_go_recurrence:
  "length (reward_to_go GAMMA rewards) = length rewards \<and>
   (\<forall>t<length rewards.
      reward_to_go GAMMA rewards ! t
        = rewards ! t + GAMMA * ((reward_to_go GAMMA rewards @ [0]) ! (t + 1))) \<and>
   reward_to_go (1 / 2) [1, 1, 1] = [7 / 4, 3 / 2, 1]"
  by (simp add: reward_to_go_rec rtg_rec_nth)

theorem reward_to_go_recurrence_witness:
  "(1::nat) < length [2, 3, 5 :: real] \<and>
   reward_to_go (1 / 10) [2, 3, 5] ! 1 = 3 + (1 / 10) * reward_to_go (1 / 10) [2, 3, 5] ! 2 \<and>
   reward_to_go (1 / 10) [2, 3, 5] = [47 / 20, 7 / 2, 5]"
  using reward_to_go_recurrence [of "1 / 10" "[2, 3, 5]"]
  by (simp add: reward_to_go_rec)

section \<open>Properties of the loss\<close>

lemma sum_list_map2_mult:
  "length a = length b \<Longrightarrow> sum_list (map2 (*) a b) = (\<Sum>t<length a. a ! t * (b ! t :: real))"
  by (simp add: sum_list_sum_nth atLeast0LessThan)

lemma mul1_same: "length a = length b \<Longrightarrow> mul1 a b = Inr (map2 (*) a b)"
  by (simp add: mul1_def)

lemma loss_loop_ok:
  assumes "list_all (\<lambda>i. i < length ws \<and> length (lps ! i) = length (ws ! i)) js"
  shows "loss_loop lps ws js acc =
           Inr (if js = [] then acc
                else Some ((case acc of None \<Rightarrow> 0 | Some l \<Rightarrow> l)
                           + (\<Sum>i\<leftarrow>js. - episode_sum (lps ! i) (ws ! i))))"
  using assms
proof (induction js arbitrary: acc)
  case Nil
  then show ?case by simp
next
  case (Cons j js)
  then show ?case
    by (cases acc) (simp_all add: mul1_same sum_list_map2_mult episode_sum_def)
qed

lemma optimize_model_loss_sum:
  assumes ne: "batch_log_prob \<noteq> []"
    and len: "length batch_rewards = length batch_log_prob"
    and same: "\<And>i. i < length batch_log_prob \<Longrightarrow> length (batch_rewards ! i) = length (batch_log_prob ! i)"
  shows "optimize_model_loss GAMMA batch_log_prob batch_rewards =
           Inr ((\<Sum>i<length batch_log_prob.
                    - episode_sum (batch_log_prob ! i) (reward_to_go GAMMA (batch_rewards ! i)))
                / real (length batch_log_prob))"
proof -
  let ?ws = "map (reward_to_go GAMMA) batch_rewards"
  let ?B = "length batch_log_prob"
  have all: "list_all (\<lambda>i. i < length ?ws \<and> length (batch_log_prob ! i) = length (?ws ! i)) [0..<?B]"
    using len same by (simp add: list_all_iff)
  have nonempty: "[0..<?B] \<noteq> []" using ne by simp
  have "(\<Sum>i\<leftarrow>[0..<?B]. - episode_sum (batch_log_prob ! i) (?ws ! i))
        = (\<Sum>i<?B. - episode_sum (batch_log_prob ! i) (reward_to_go GAMMA (batch_rewards ! i)))"
    using len by (simp add: interv_sum_list_conv_sum_set_nat atLeast0LessThan)
  then show ?thesis
    using nonempty by (simp add: optimize_model_loss_def Let_def loss_loop_ok [OF all])
qed

lemma episode_sum_update:
  assumes "t < length lp"
  shows "episode_sum (lp[t := v]) w = episode_sum lp w + (v - lp ! t) * w ! t"
proof -
  have "episode_sum (lp[t := v]) w
        = (\<Sum>u<length lp. lp ! u * w ! u + (if u = t then (v - lp ! t) * w ! t else 0))"
    unfolding episode_sum_def
    by (rule sum.cong) (auto simp: nth_list_update algebra_simps)
  also have "\<dots> = episode_sum lp w + (v - lp ! t) * w ! t"
    using assms by (simp add: sum.distrib episode_sum_def)
  finally show ?thesis .
qed

lemma batch_sum_update:
  assumes "i < length lps" "t < length (lps ! i)"
  shows "(\<Sum>j<length lps. - episode_sum (lps[i := (lps ! i)[t := v]] ! j) (ws j))
         = (\<Sum>j<length lps. - episode_sum (lps ! j) (ws j)) - (v - lps ! i ! t) * ws i ! t"
proof -
  have "(\<Sum>j<length lps. - episode_sum (lps[i := (lps ! i)[t := v]] ! j) (ws j))
        = (\<Sum>j<length lps. - episode_sum (lps ! j) (ws j)
              + (if j = i then - ((v - lps ! i ! t) * ws i ! t) else 0))"
    by (rule sum.cong) (auto simp: nth_list_update episode_sum_update assms)
  also have "\<dots> = (\<Sum>j<length lps. - episode_sum (lps ! j) (ws j))
                   + (\<Sum>j<length lps. if j = i then - ((v - lps ! i ! t) * ws i ! t) else 0)"
    by (rule sum.distrib)
  also have "(\<Sum>j<length lps. if j = i then - ((v - lps ! i ! t) * ws i ! t) else 0)
             = - ((v - lps ! i ! t) * ws i ! t)"
    using assms by simp
  finally show ?thesis by simp
qed

lemma loss_update_decreases:
  assumes len: "length batch_rewards = length batch_log_prob"
    and same: "\<And>j. j < length batch_log_prob \<Longrightarrow> length (batch_rewards ! j) = length (batch_log_prob ! j)"
    and i: "i < length batch_log_prob" and t: "t < length (batch_log_prob ! i)"
    and pos: "0 < reward_to_go GAMMA (batch_rewards ! i) ! t"
    and incr: "batch_log_prob ! i ! t < v"
  shows "\<exists>l l'. optimize_model_loss GAMMA batch_log_prob batch_rewards = Inr l \<and>
                optimize_model_loss GAMMA (batch_log_prob[i := (batch_log_prob ! i)[t := v]]) batch_rewards = Inr l' \<and>
                l' < l"
proof -
  let ?lps' = "batch_log_prob[i := (batch_log_prob ! i)[t := v]]"
  let ?B = "length batch_log_prob"
  let ?S = "\<Sum>j<?B. - episode_sum (batch_log_prob ! j) (reward_to_go GAMMA (batch_rewards ! j))"
  let ?d = "(v - batch_log_prob ! i ! t) * reward_to_go GAMMA (batch_rewards ! i) ! t"
  have ne: "batch_log_prob \<noteq> []" using i by (cases batch_log_prob) simp_all
  have l: "optimize_model_loss GAMMA batch_log_prob batch_rewards = Inr (?S / real ?B)"
    by (rule optimize_model_loss_sum [OF ne len same])
  have same': "length (batch_rewards ! j) = length (?lps' ! j)" if "j < length ?lps'" for j
    using same [of j] that by (cases "j = i") simp_all
  have "optimize_model_loss GAMMA ?lps' batch_rewards =
          Inr ((\<Sum>j<length ?lps'. - episode_sum (?lps' ! j) (reward_to_go GAMMA (batch_rewards ! j))) / real (length ?lps'))"
  proof (rule optimize_model_loss_sum)
    show "?lps' \<noteq> []" using ne by simp
    show "length batch_rewards = length ?lps'" using len by simp
    show "\<And>j. j < length ?lps' \<Longrightarrow> length (batch_rewards ! j) = length (?lps' ! j)"
      by (rule same')
  qed
  then have l': "optimize_model_loss GAMMA ?lps' batch_rewards = Inr ((?S - ?d) / real ?B)"
    using batch_sum_update [OF i t, of v "\<lambda>j. reward_to_go GAMMA (batch_rewards ! j)"] by simp
  have "0 < ?d" using pos incr by simp
  moreover have "0 < real ?B" using ne by simp
  ultimately have "(?S - ?d) / real ?B < ?S / real ?B"
    by (simp add: divide_strict_right_mono)
  with l l' show ?thesis by blast
qed

lemma optimize_model_loss_empty: "optimize_model_loss GAMMA [] batch_rewards = Inl TypeError"
  by (simp add: optimize_model_loss_def)

text \<open>
  Claim C2. For a non-empty batch in which every episode has a log-probability sequence
  and a reward sequence of the same length, the scalar loss on which \<^verbatim>\<open>optimize_model\<close>
  calls \<^verbatim>\<open>backward()\<close> is the mean over the episodes of
  \<open>- \<Sum>\<^sub>t log_prob[t] * rtg[t]\<close>, where \<open>rtg\<close> is the reward-to-go sequence of the episode.
  (On the empty batch no loss is formed: line 189 divides \<^verbatim>\<open>None\<close>, see
  \<open>optimize_model_loss_empty\<close>.)
\<close>

theorem optimize_model_loss_mean:
  assumes "batch_log_prob \<noteq> []"
    and "length batch_rewards = length batch_log_prob"
    and "\<forall>i<length batch_log_prob. length (batch_rewards ! i) = length (batch_log_prob ! i)"
  shows "optimize_model_loss GAMMA batch_log_prob batch_rewards =
           Inr ((\<Sum>i<length batch_log_prob.
                    - (\<Sum>t<length (batch_log_prob ! i).
                          batch_log_prob ! i ! t * reward_to_go GAMMA (batch_rewards ! i) ! t))
                / real (length batch_log_prob))"
  using optimize_model_loss_sum [of batch_log_prob batch_rewards GAMMA] assms
  by (simp add: episode_sum_def)

theorem optimize_model_loss_mean_witness:
  "[[1, 2], [3 :: real]] \<noteq> [] \<and>
   length [[1, 1], [2 :: real]] = length [[1, 2], [3 :: real]] \<and>
   length ([[1, 1], [2 :: real]] ! 0) = length ([[1, 2], [3 :: real]] ! 0) \<and>
   length ([[1, 1], [2 :: real]] ! 1) = length ([[1, 2], [3 :: real]] ! 1) \<and>
   optimize_model_loss (1 / 2) [[1, 2], [3]] [[1, 1], [2]] = Inr (- (19 / 4))"
proof -
  have h: "\<forall>i<length [[1, 2], [3 :: real]]. length ([[1, 1], [2 :: real]] ! i) = length ([[1, 2], [3 :: real]] ! i)"
    by (simp add: All_less_Suc eval_nat_numeral)
  show ?thesis
    using h optimize_model_loss_mean [of "[[1, 2], [3]]" "[[1, 1], [2]]" "1 / 2"]
    by (simp add: reward_to_go_rec lessThan_Suc eval_nat_numeral)
qed

section \<open>Properties of the recurrent part of PolicyNet.forward\<close>

lemma constructed_init:
  "constructed (PolicyNet_init LSTMCell dec mean logstd ss k al bs hs nl dr)"
  by (simp add: constructed_def PolicyNet_init_def)

lemma following_layers_result:
  "list_all (\<lambda>i. i < length cells) js \<Longrightarrow>
   \<exists>hn cn. following_layers cells hs cs js (h, hl, cl) = Inr (last (h # hn), hl @ hn, cl @ cn) \<and>
     length hn = length js \<and> length cn = length js \<and>
     (\<forall>j<length js. (hn ! j, cn ! j) = (cells ! (js ! j)) ((h # hn) ! j) (hs ! 0, cs ! 0))"
proof (induction js arbitrary: h hl cl)
  case Nil
  then show ?case by simp
next
  case (Cons i js)
  obtain h' c' where step: "(cells ! i) h (hs ! 0, cs ! 0) = (h', c')"
    by (cases "(cells ! i) h (hs ! 0, cs ! 0)") auto
  from Cons.prems have i: "i < length cells" and rest: "list_all (\<lambda>i. i < length cells) js"
    by simp_all
  from Cons.IH [OF rest, of h' "hl @ [h']" "cl @ [c']"]
  obtain hn cn where
    run: "following_layers cells hs cs js (h', hl @ [h'], cl @ [c'])
            = Inr (last (h' # hn), (hl @ [h']) @ hn, (cl @ [c']) @ cn)"
    and len: "length hn = length js" "length cn = length js"
    and nth: "\<forall>j<length js. (hn ! j, cn ! j) = (cells ! (js ! j)) ((h' # hn) ! j) (hs ! 0, cs ! 0)"
    by blast
  have "following_layers cells hs cs (i # js) (h, hl, cl)
          = Inr (last (h # h' # hn), hl @ (h' # hn), cl @ (c' # cn))"
    using i step run by simp
  moreover have "\<forall>j<length (i # js).
      ((h' # hn) ! j, (c' # cn) ! j) = (cells ! ((i # js) ! j)) ((h # h' # hn) ! j) (hs ! 0, cs ! 0)"
  proof (intro allI impI)
    fix j assume "j < length (i # js)"
    then show "((h' # hn) ! j, (c' # cn) ! j)
                 = (cells ! ((i # js) ! j)) ((h # h' # hn) ! j) (hs ! 0, cs ! 0)"
      using step nth by (cases j) simp_all
  qed
  ultimately show ?case using len
    by (intro exI [of _ "h' # hn"] exI [of _ "c' # cn"]) simp
qed

lemma fst_forward: "fst (forward pn D state encoding) = fst (forward_rnn pn state encoding)"
  by (simp add: forward_def split: prod.splits sum.splits)

lemma forward_rnn_step:
  assumes inv: "constructed pn"
    and h: "h_list pn = Some hs" and c: "c_list pn = Some cs"
    and ne: "hs \<noteq> []" "cs \<noteq> []"
  shows "\<exists>hs' cs'.
      forward_rnn pn state None = (pn\<lparr> h_list := Some hs', c_list := Some cs' \<rparr>, Inr (last hs')) \<and>
      length hs' = max 1 (num_layers pn) \<and> length cs' = max 1 (num_layers pn) \<and>
      (hs' ! 0, cs' ! 0) = (cell_list pn ! 0) state (hs ! 0, cs ! 0) \<and>
      (\<forall>i. 1 \<le> i \<and> i < num_layers pn \<longrightarrow>
           (hs' ! i, cs' ! i) = (cell_list pn ! i) (hs' ! (i - 1)) (hs ! 0, cs ! 0))"
proof -
  from inv have len: "length (cell_list pn) = max 1 (num_layers pn)"
    by (simp add: constructed_def)
  then obtain cell0 rest where cells: "cell_list pn = cell0 # rest"
    by (cases "cell_list pn") auto
  obtain h_1 c_1 where first: "cell0 state (hs ! 0, cs ! 0) = (h_1, c_1)"
    by (cases "cell0 state (hs ! 0, cs ! 0)") auto
  have all: "list_all (\<lambda>i. i < length (cell_list pn)) [1..<num_layers pn]"
    using len by (simp add: list_all_iff)
  from following_layers_result [OF all, of hs cs h_1 "[h_1]" "[c_1]"]
  obtain hn cn where
    run: "following_layers (cell_list pn) hs cs [1..<num_layers pn] (h_1, [h_1], [c_1])
            = Inr (last (h_1 # hn), [h_1] @ hn, [c_1] @ cn)"
    and lens: "length hn = num_layers pn - 1" "length cn = num_layers pn - 1"
    and nth: "\<forall>j<num_layers pn - 1.
        (hn ! j, cn ! j) = (cell_list pn ! ([1..<num_layers pn] ! j)) ((h_1 # hn) ! j) (hs ! 0, cs ! 0)"
    by auto
  have res: "forward_rnn pn state None
          = (pn\<lparr> h_list := Some (h_1 # hn), c_list := Some (c_1 # cn) \<rparr>, Inr (last (h_1 # hn)))"
    using h c ne first run cells by (simp add: forward_rnn_def)
  have later: "((h_1 # hn) ! i, (c_1 # cn) ! i)
                 = (cell_list pn ! i) ((h_1 # hn) ! (i - 1)) (hs ! 0, cs ! 0)"
    if i1: "1 \<le> i" and i2: "i < num_layers pn" for i
  proof -
    obtain j where j: "i = Suc j" using i1 by (cases i) auto
    with i2 have "j < num_layers pn - 1" by simp
    with nth have "(hn ! j, cn ! j)
        = (cell_list pn ! ([1..<num_layers pn] ! j)) ((h_1 # hn) ! j) (hs ! 0, cs ! 0)" by blast
    moreover have "[1..<num_layers pn] ! j = i" using j i2 by simp
    ultimately show ?thesis using j by simp
  qed
  show ?thesis
    apply (rule exI [of _ "h_1 # hn"], rule exI [of _ "c_1 # cn"])
    using res lens first cells later by (auto simp: max_def)
qed

lemma reset_state_overwrites:
  "reset_state (pn\<lparr> h_list := a, c_list := b \<rparr>) e = reset_state pn e"
  by (simp add: reset_state_def)

lemma forward_rnn_frame:
  "\<exists>a b. fst (forward_rnn pn state encoding) = pn\<lparr> h_list := a, c_list := b \<rparr>"
proof -
  have base: "\<exists>a b. p = pn\<lparr> h_list := a, c_list := b \<rparr> \<Longrightarrow>
     \<exists>a b. p\<lparr> h_list := x, c_list := y \<rparr> = pn\<lparr> h_list := a, c_list := b \<rparr>" for p x y
    by (elim exE, intro exI [of _ x] exI [of _ y]) simp
  define pn1 where "pn1 = (case encoding of None \<Rightarrow> pn | Some e \<Rightarrow> reset_state pn e)"
  have p1: "\<exists>a b. pn1 = pn\<lparr> h_list := a, c_list := b \<rparr>"
  proof (cases encoding)
    case None
    have "pn = pn\<lparr> h_list := h_list pn, c_list := c_list pn \<rparr>" by simp
    then show ?thesis using None unfolding pn1_def by (metis option.simps(4))
  next
    case (Some e)
    then show ?thesis unfolding pn1_def by (auto simp: reset_state_def)
  qed
  have "fst (forward_rnn pn state encoding) = pn1 \<or>
        (\<exists>x y. fst (forward_rnn pn state encoding) = pn1\<lparr> h_list := x, c_list := y \<rparr>)"
    unfolding forward_rnn_def pn1_def [symmetric] Let_def
    by (auto split: list.splits option.splits prod.splits sum.splits)
  then show ?thesis using p1 base by metis
qed

lemma forward_reset_fixpoint:
  "fst (forward (fst (forward pn D state (Some e))) D' state (Some e))
     = fst (forward pn D state (Some e))"
proof -
  obtain a b where fr: "fst (forward_rnn pn state (Some e)) = pn\<lparr> h_list := a, c_list := b \<rparr>"
    using forward_rnn_frame by blast
  have "forward_rnn (pn\<lparr> h_list := a, c_list := b \<rparr>) state (Some e) = forward_rnn pn state (Some e)"
    by (simp add: forward_rnn_def reset_state_overwrites)
  then show ?thesis by (simp add: fst_forward fr)
qed

lemma example_net_step_constructed:
  "constructed ((example_net k nl)\<lparr> h_list := a, c_list := b \<rparr>)"
  by (simp add: constructed_def example_net_def PolicyNet_init_def)

lemma example_step_eval:
  "fst (forward ((example_net 3 2)\<lparr> h_list := Some [[[1]], [[100]]], c_list := Some [[[2]], [[200]]] \<rparr>)
          (example_dist 2) [[10]] None)
   = (example_net 3 2)\<lparr> h_list := Some [[[11]], [[12]]], c_list := Some [[[2]], [[2]]] \<rparr>"
  by (simp add: fst_forward forward_rnn_def example_net_def PolicyNet_init_def example_cell_def upt_rec)

lemma example_reset_eval:
  "fst (forward (example_net 3 2) D [[1]] (Some [[5]]))
   = (example_net 3 2)\<lparr> h_list := Some [[[6]], [[11]]], c_list := Some [[[0]], [[0]]] \<rparr>"
  by (simp add: fst_forward forward_rnn_def reset_state_def zeros_def scale2_def
        example_net_def PolicyNet_init_def example_cell_def upt_rec)

lemma first_step_after_reset:
  assumes "constructed pn" and "2 \<le> num_layers pn"
  shows "\<exists>hs' cs'.
      h_list (fst (forward pn D state (Some e))) = Some hs' \<and>
      c_list (fst (forward pn D state (Some e))) = Some cs' \<and>
      (hs' ! 1, cs' ! 1) =
         (cell_list pn ! 1) (hs' ! 0) (e, zeros (batch_size pn) (hidden_size pn))"
proof -
  let ?pn1 = "reset_state pn e"
  let ?z = "scale2 (zeros (batch_size pn) (hidden_size pn)) (real (num_layers pn))"
  have z: "?z = zeros (batch_size pn) (hidden_size pn)"
    by (simp add: scale2_def zeros_def)
  have same: "forward_rnn pn state (Some e) = forward_rnn ?pn1 state None"
    by (simp add: forward_rnn_def)
  have c: "constructed ?pn1" using assms(1) by (simp add: constructed_def reset_state_def)
  have h: "h_list ?pn1 = Some [e]" "c_list ?pn1 = Some [?z]"
    by (simp_all add: reset_state_def)
  have nl: "num_layers ?pn1 = num_layers pn" "cell_list ?pn1 = cell_list pn"
    by (simp_all add: reset_state_def)
  from forward_rnn_step [OF c h, of state]
  obtain hs' cs' where
    r: "forward_rnn ?pn1 state None = (?pn1\<lparr> h_list := Some hs', c_list := Some cs' \<rparr>, Inr (last hs'))"
    and n: "\<forall>i. 1 \<le> i \<and> i < num_layers ?pn1 \<longrightarrow>
           (hs' ! i, cs' ! i) = (cell_list ?pn1 ! i) (hs' ! (i - 1)) ([e] ! 0, [?z] ! 0)"
    by auto
  from n assms(2) have "(hs' ! 1, cs' ! 1) = (cell_list pn ! 1) (hs' ! 0) (e, ?z)"
    by (simp add: nl)
  then show ?thesis using r same z by (auto simp: fst_forward)
qed

text \<open>
  Claim C6. In a step call (no encoding) of a net with at least two layers, whose stored
  state is a non-empty pair of lists, every layer \<open>i \<ge> 1\<close> is applied to the hidden
  output that layer \<open>i - 1\<close> has just computed, with the pair
  \<open>(h_list[0], c_list[0])\<close> stored before the call as its recurrent carry: the previous
  state of layer 0, whatever the previous state of layer \<open>i\<close> was.
\<close>

theorem step_layers_reuse_layer0_carry:
  assumes "constructed pn" and "2 \<le> num_layers pn"
    and "h_list pn = Some hs" and "c_list pn = Some cs" and "hs \<noteq> []" and "cs \<noteq> []"
  shows "\<exists>hs' cs'.
      h_list (fst (forward pn D state None)) = Some hs' \<and>
      c_list (fst (forward pn D state None)) = Some cs' \<and>
      length hs' = num_layers pn \<and> length cs' = num_layers pn \<and>
      (\<forall>i. 1 \<le> i \<and> i < num_layers pn \<longrightarrow>
           (hs' ! i, cs' ! i) = (cell_list pn ! i) (hs' ! (i - 1)) (hs ! 0, cs ! 0))"
proof -
  from forward_rnn_step [OF assms(1,3,4,5,6), of state]
  obtain hs' cs' where
    r: "forward_rnn pn state None = (pn\<lparr> h_list := Some hs', c_list := Some cs' \<rparr>, Inr (last hs'))"
    and l: "length hs' = max 1 (num_layers pn)" "length cs' = max 1 (num_layers pn)"
    and n: "\<forall>i. 1 \<le> i \<and> i < num_layers pn \<longrightarrow>
           (hs' ! i, cs' ! i) = (cell_list pn ! i) (hs' ! (i - 1)) (hs ! 0, cs ! 0)"
    by blast
  have "h_list (fst (forward pn D state None)) = Some hs'"
       "c_list (fst (forward pn D state None)) = Some cs'"
    using r by (simp_all add: fst_forward)
  moreover have "length hs' = num_layers pn" "length cs' = num_layers pn"
    using l assms(2) by simp_all
  ultimately show ?thesis using n by blast
qed

theorem step_layers_reuse_layer0_carry_witness:
  "constructed ((example_net 3 2)\<lparr> h_list := Some [[[1]], [[100]]], c_list := Some [[[2]], [[200]]] \<rparr>) \<and>
   2 \<le> num_layers (example_net 3 2) \<and>
   [[[1]], [[100 :: real]]] \<noteq> [] \<and> [[[2]], [[200 :: real]]] \<noteq> [] \<and>
   h_list (fst (forward ((example_net 3 2)\<lparr> h_list := Some [[[1]], [[100]]], c_list := Some [[[2]], [[200]]] \<rparr>)
          (example_dist 2) [[10]] None)) = Some [[[11]], [[12]]] \<and>
   c_list (fst (forward ((example_net 3 2)\<lparr> h_list := Some [[[1]], [[100]]], c_list := Some [[[2]], [[200]]] \<rparr>)
          (example_dist 2) [[10]] None)) = Some [[[2]], [[2]]] \<and>
   ([[12]], [[2]]) = example_cell [[11]] ([[1]], [[2]])"
proof -
  let ?pn = "(example_net 3 2)\<lparr> h_list := Some [[[1]], [[100]]], c_list := Some [[[2]], [[200]]] \<rparr>"
  have c: "constructed ?pn" by (rule example_net_step_constructed)
  have n: "2 \<le> num_layers ?pn" by (simp add: example_net_def PolicyNet_init_def)
  have h: "h_list ?pn = Some [[[1]], [[100]]]" "c_list ?pn = Some [[[2]], [[200]]]" by simp_all
  have ne: "[[[1]], [[100 :: real]]] \<noteq> []" "[[[2]], [[200 :: real]]] \<noteq> []" by simp_all
  from step_layers_reuse_layer0_carry [OF c n h ne, of "example_dist 2" "[[10]]"]
  have "\<exists>hs' cs'. h_list (fst (forward ?pn (example_dist 2) [[10]] None)) = Some hs' \<and>
      c_list (fst (forward ?pn (example_dist 2) [[10]] None)) = Some cs'" by blast
  then show ?thesis
    using c n by (simp add: example_step_eval example_cell_def)
qed

text \<open>
  Claim C7. Reset is idempotent on the recurrent state: after two calls
  \<^verbatim>\<open>forward(s, encoding=e)\<close> in succession (with any random draws), \<^verbatim>\<open>h_list\<close> and
  \<^verbatim>\<open>c_list\<close> are what they are after one such call.
\<close>

theorem reset_idempotent:
  "h_list (fst (forward (fst (forward pn D state (Some e))) D' state (Some e)))
     = h_list (fst (forward pn D state (Some e))) \<and>
   c_list (fst (forward (fst (forward pn D state (Some e))) D' state (Some e)))
     = c_list (fst (forward pn D state (Some e)))"
  by (simp add: forward_reset_fixpoint)

theorem reset_idempotent_witness:
  "h_list (fst (forward (fst (forward (example_net 3 2) (example_dist 2) [[1]] (Some [[5]])))
             (example_dist 0) [[1]] (Some [[5]]))) = Some [[[6]], [[11]]] \<and>
   c_list (fst (forward (fst (forward (example_net 3 2) (example_dist 2) [[1]] (Some [[5]])))
             (example_dist 0) [[1]] (Some [[5]]))) = Some [[[0]], [[0]]]"
  using reset_idempotent [of "example_net 3 2" "example_dist 2" "[[1]]" "[[5]]" "example_dist 0"]
  by (simp add: example_reset_eval)

text \<open>
  Claim C3 says that after a reset only layer 0 holds the context and every other layer
  starts the first step from zero hidden and cell state. The code evaluated on a
  two-layer net with the context \<open>[[5]]\<close> and the state \<open>[[1]]\<close>: the reset leaves lists
  of length one (\<open>[context]\<close> and \<open>[zeros]\<close>), and in the first step layer 1 is run with
  the carry \<open>(context, zeros)\<close>: its hidden output is \<open>[[11]]\<close>, where a zero carry would
  give \<open>[[6]]\<close>. (\<open>first_step_after_reset\<close> is the same fact for every net.)
\<close>

theorem reset_seeds_layer1_with_context:
  "h_list (reset_state (example_net 3 2) [[5]]) = Some [[[5]]] \<and>
   c_list (reset_state (example_net 3 2) [[5]]) = Some [[[0]]] \<and>
   h_list (fst (forward (example_net 3 2) (example_dist 2) [[1]] (Some [[5]]))) = Some [[[6]], [[11]]] \<and>
   cell_list (example_net 3 2) ! 1 = example_cell \<and>
   example_cell [[6]] ([[5]], [[0]]) = ([[11]], [[0]]) \<and>
   example_cell [[6]] ([[0]], [[0]]) = ([[6]], [[0]])"
  by (simp add: example_reset_eval)
     (simp add: reset_state_def zeros_def scale2_def example_net_def PolicyNet_init_def
        example_cell_def upt_rec)

section \<open>Properties of the sampling part of PolicyNet.forward\<close>

lemma sample_step_not_None: "sample_step D vm vs i acc \<noteq> Inr None"
  by (auto simp: sample_step_def Let_def split: sum.splits option.splits prod.splits)

lemma sample_loop_Some_not_None:
  "acc \<noteq> None \<Longrightarrow> sample_loop D vm vs js acc \<noteq> Inr None"
proof (induction js arbitrary: acc)
  case Nil
  then show ?case by simp
next
  case (Cons i js)
  show ?case
  proof (cases "sample_step D vm vs i acc")
    case (Inl e)
    then show ?thesis by simp
  next
    case (Inr acc')
    then have "acc' \<noteq> None" using sample_step_not_None [of D vm vs i acc] by auto
    then show ?thesis using Inr Cons.IH by simp
  qed
qed

lemma sample_loop_not_None:
  assumes "js \<noteq> []"
  shows "sample_loop D vm vs js acc \<noteq> Inr None"
proof -
  obtain i rest where js: "js = i # rest" using assms by (cases js) auto
  show ?thesis
  proof (cases "sample_step D vm vs i acc")
    case (Inl e)
    then show ?thesis by (simp add: js)
  next
    case (Inr acc')
    then have "acc' \<noteq> None" using sample_step_not_None [of D vm vs i acc] by auto
    then show ?thesis using Inr sample_loop_Some_not_None by (simp add: js)
  qed
qed

lemma forward_head_no_loop:
  "num_actions pn \<le> 1 \<Longrightarrow> forward_head pn D h_1 = Inl TypeError"
  by (simp add: forward_head_def Let_def)

lemma forward_Inr:
  assumes "forward pn D state encoding = (pn', Inr res)"
  shows "\<exists>h_1. forward_rnn pn state encoding = (pn', Inr h_1) \<and> forward_head pn' D h_1 = Inr res"
  using assms by (auto simp: forward_def split: prod.splits sum.splits)

lemma forward_fails_without_loop:
  assumes "num_actions pn \<le> 1"
  shows "\<exists>e. snd (forward pn D state encoding) = Inl e"
proof (cases "snd (forward pn D state encoding)")
  case (Inl e)
  then show ?thesis by blast
next
  case (Inr res)
  then have "forward pn D state encoding = (fst (forward pn D state encoding), Inr res)"
    by (metis prod.collapse)
  from forward_Inr [OF this] obtain h_1 where
    "forward_head (fst (forward pn D state encoding)) D h_1 = Inr res" by blast
  moreover obtain a b where "fst (forward pn D state encoding) = pn\<lparr> h_list := a, c_list := b \<rparr>"
    using forward_rnn_frame [of pn state encoding] by (auto simp: fst_forward)
  ultimately show ?thesis
    using forward_head_no_loop [of "pn\<lparr> h_list := a, c_list := b \<rparr>" D h_1] assms by simp
qed

lemma length_one_hot [simp]: "length (one_hot k j) = k"
  by (simp add: one_hot_def)

lemma one_hot_nth: "i < k \<Longrightarrow> one_hot k j ! i = (if i = j then 1 else 0)"
  by (simp add: one_hot_def)

lemma sum_list_one_hot_select:
  assumes "length ys = k" and "j < k"
  shows "sum_list (map2 (*) ys (one_hot k j)) = ys ! j"
proof -
  have "sum_list (map2 (*) ys (one_hot k j)) = (\<Sum>t<length ys. ys ! t * one_hot k j ! t)"
    using assms by (simp add: sum_list_map2_mult)
  also have "\<dots> = (\<Sum>t<k. if t = j then ys ! j else 0)"
    using assms by (intro sum.cong) (auto simp: one_hot_nth)
  also have "\<dots> = ys ! j" using assms by simp
  finally show ?thesis .
qed

lemma cat1_Inr:
  assumes "cat1 a b = Inr c"
  shows "length a = length b" and "length c = length a" and "i < length a \<Longrightarrow> c ! i = a ! i @ b ! i"
  using assms by (auto simp: cat1_def split: if_splits)

lemma mul2_Inr:
  assumes "mul2 a b = Inr c"
  shows "length a = length b" and "length c = length b"
    and "i < length b \<Longrightarrow> length (a ! i) = length (b ! i)"
    and "i < length b \<Longrightarrow> c ! i = map2 (*) (a ! i) (b ! i)"
proof -
  from assms have eq: "map length a = map length b" and c: "c = map2 (map2 (*)) a b"
    by (auto simp: mul2_def split: if_splits)
  from eq show len: "length a = length b" by (rule map_eq_imp_length_eq)
  from c len show "length c = length b" by simp
  show "length (a ! i) = length (b ! i)" if "i < length b"
    using that eq len by (metis nth_map)
  show "c ! i = map2 (*) (a ! i) (b ! i)" if "i < length b"
    using that c len by simp
qed

lemma length_OneHotCategorical_sample [simp]:
  "length (OneHotCategorical_sample D logits) = length logits"
  by (simp add: OneHotCategorical_sample_def)

lemma OneHotCategorical_sample_nth:
  "b < length logits \<Longrightarrow>
   OneHotCategorical_sample D logits ! b = one_hot (length (logits ! b)) (categorical_sample D b)"
  by (simp add: OneHotCategorical_sample_def)

lemma Linear_forward_shape [simp]:
  "length (Linear_forward l x) = length x"
  "b < length x \<Longrightarrow> length (Linear_forward l x ! b) = out_features l"
  by (simp_all add: Linear_forward_def)

text \<open>What a successful run of lines 113--162 returns, row by row.\<close>

lemma forward_head_Inr:
  assumes ok: "forward_head pn D h_1 = Inr (decision, vals, lp)"
  shows "decision = OneHotCategorical_sample D (Linear_forward (FC_decision pn) h_1)"
    and "2 \<le> num_actions pn"
    and "length vals = length h_1" and "length lp = length h_1"
    and "b < length h_1 \<Longrightarrow>
         \<exists>xs ys. length (xs @ [0]) = length (decision ! b) \<and>
                 length (ys @ [0]) = length (decision ! b) \<and>
                 vals ! b = sum_list (map2 (*) (xs @ [0]) (decision ! b)) * act_lim pn \<and>
                 lp ! b = OneHotCategorical_log_prob D (Linear_forward (FC_decision pn) h_1) decision ! b
                          + sum_list (map2 (*) (ys @ [0]) (decision ! b))"
proof -
  let ?logits = "Linear_forward (FC_decision pn) h_1"
  let ?dec = "OneHotCategorical_sample D ?logits"
  let ?dlp = "OneHotCategorical_log_prob D ?logits ?dec"
  show k: "2 \<le> num_actions pn"
  proof (rule ccontr)
    assume "\<not> 2 \<le> num_actions pn"
    then have "forward_head pn D h_1 = Inl TypeError" by (simp add: forward_head_def Let_def)
    with ok show False by simp
  qed
  let ?loop = "sample_loop D (Linear_forward (FC_values_mean pn) h_1)
                 (map (map exp) (Linear_forward (FC_values_logstd pn) h_1))
                 [0..<num_actions pn - 1] None"
  define Z where "Z = zeros (batch_size pn) 1"
  define dec where "dec = ?dec"
  define dlp where "dlp = ?dlp"
  obtain a0 l0 where sl: "?loop = Inr (Some (a0, l0))"
  proof (cases ?loop)
    case (Inl e)
    with ok show ?thesis by (simp add: forward_head_def Let_def)
  next
    case (Inr acc)
    with ok that show ?thesis by (cases acc) (auto simp: forward_head_def Let_def)
  qed
  have fh: "forward_head pn D h_1 =
      (case cat1 a0 Z of Inl e \<Rightarrow> Inl e
       | Inr av \<Rightarrow>
          (case cat1 l0 Z of Inl e \<Rightarrow> Inl e
           | Inr alv \<Rightarrow>
              (case mul2 av dec of Inl e \<Rightarrow> Inl e
               | Inr m \<Rightarrow>
                  (case mul2 alv dec of Inl e \<Rightarrow> Inl e
                   | Inr ml \<Rightarrow>
                       Inr (dec, map (\<lambda>x. x * act_lim pn) (map sum_list m),
                            map2 (+) dlp (map sum_list ml))))))"
    unfolding forward_head_def Let_def sl Z_def dec_def dlp_def by simp
  obtain av where c1': "cat1 a0 Z = Inr av"
    using ok by (cases "cat1 a0 Z") (simp_all add: fh)
  obtain alv where c2': "cat1 l0 Z = Inr alv"
    using ok by (cases "cat1 l0 Z") (simp_all add: fh c1')
  obtain m where m1': "mul2 av dec = Inr m"
    using ok by (cases "mul2 av dec") (simp_all add: fh c1' c2')
  obtain ml where m2': "mul2 alv dec = Inr ml"
    using ok by (cases "mul2 alv dec") (simp_all add: fh c1' c2' m1')
  have res': "decision = dec" "vals = map (\<lambda>x. x * act_lim pn) (map sum_list m)"
             "lp = map2 (+) dlp (map sum_list ml)"
    using ok by (simp_all add: fh c1' c2' m1' m2')
  note c1 = c1' [unfolded Z_def] and c2 = c2' [unfolded Z_def]
    and m1 = m1' [unfolded dec_def] and m2 = m2' [unfolded dec_def]
    and res = res' [unfolded dec_def dlp_def]
  show "decision = ?dec" by (rule res)
  have ld: "length ?dec = length h_1" by simp
  have lens: "length av = length h_1" "length alv = length h_1" "length m = length h_1"
    "length ml = length h_1"
    using mul2_Inr(1,2) [OF m1] mul2_Inr(1,2) [OF m2] ld by simp_all
  have la: "length a0 = length h_1" "length l0 = length h_1" "batch_size pn = length h_1"
    using cat1_Inr(1,2) [OF c1] cat1_Inr(1,2) [OF c2] lens by (simp_all add: zeros_def)
  show "length vals = length h_1" using res lens by simp
  have ldlp: "length ?dlp = length h_1"
    by (simp add: OneHotCategorical_log_prob_def)
  show "length lp = length h_1" using res lens ldlp by simp
  show "\<exists>xs ys. length (xs @ [0]) = length (decision ! b) \<and>
                 length (ys @ [0]) = length (decision ! b) \<and>
                 vals ! b = sum_list (map2 (*) (xs @ [0]) (decision ! b)) * act_lim pn \<and>
                 lp ! b = OneHotCategorical_log_prob D (Linear_forward (FC_decision pn) h_1) decision ! b
                          + sum_list (map2 (*) (ys @ [0]) (decision ! b))"
    if b: "b < length h_1"
  proof -
    have z: "zeros (batch_size pn) 1 ! b = [0]" using b la by (simp add: zeros_def)
    have avb: "av ! b = a0 ! b @ [0]" using cat1_Inr(3) [OF c1, of b] b la z by simp
    have alvb: "alv ! b = l0 ! b @ [0]" using cat1_Inr(3) [OF c2, of b] b la z by simp
    have bd: "b < length ?dec" using b by simp
    have "vals ! b = sum_list (map2 (*) (a0 ! b @ [0]) (decision ! b)) * act_lim pn"
      using res lens b mul2_Inr(4) [OF m1 bd] avb by simp
    moreover have "lp ! b = ?dlp ! b + sum_list (map2 (*) (l0 ! b @ [0]) (decision ! b))"
      using res lens ldlp b mul2_Inr(4) [OF m2 bd] alvb by simp
    moreover have "length (a0 ! b @ [0]) = length (decision ! b)"
      using mul2_Inr(3) [OF m1 bd] avb res by simp
    moreover have "length (l0 ! b @ [0]) = length (decision ! b)"
      using mul2_Inr(3) [OF m2 bd] alvb res by simp
    ultimately show ?thesis using res(1) by blast
  qed
qed

lemma following_layers_last:
  "following_layers cells hs cs js (h, hl, cl) = Inr (h', hl', cl') \<Longrightarrow>
   hl \<noteq> [] \<Longrightarrow> last hl = h \<Longrightarrow> hl' \<noteq> [] \<and> last hl' = h'"
proof (induction js arbitrary: h hl cl)
  case Nil
  then show ?case by simp
next
  case (Cons i js)
  obtain h2 c2 where step: "(cells ! i) h (hs ! 0, cs ! 0) = (h2, c2)"
    by (cases "(cells ! i) h (hs ! 0, cs ! 0)") auto
  from Cons.prems(1) have "following_layers cells hs cs js (h2, hl @ [h2], cl @ [c2]) = Inr (h', hl', cl')"
    using step by (simp split: if_splits)
  from Cons.IH [OF this] show ?case by simp
qed

lemma forward_rnn_Inr:
  assumes "forward_rnn pn state encoding = (pn', Inr h_1)"
  shows "\<exists>hs'. h_list pn' = Some hs' \<and> hs' \<noteq> [] \<and> last hs' = h_1"
proof -
  define pn1 where "pn1 = (case encoding of None \<Rightarrow> pn | Some e \<Rightarrow> reset_state pn e)"
  from assms obtain hs cs cell0 rest h c where
    "cell_list pn1 = cell0 # rest" "h_list pn1 = Some hs" "c_list pn1 = Some cs"
    and first: "cell0 state (hs ! 0, cs ! 0) = (h, c)"
    and run: "(case following_layers (cell_list pn1) hs cs [1..<num_layers pn1] (h, [h], [c]) of
                 Inl e \<Rightarrow> (pn1, Inl e)
               | Inr (h_1', h1_list, c1_list) \<Rightarrow>
                   (pn1\<lparr> h_list := Some h1_list, c_list := Some c1_list \<rparr>, Inr h_1'))
              = (pn', Inr h_1)"
    unfolding forward_rnn_def pn1_def [symmetric] Let_def
    by (auto split: list.splits option.splits if_splits prod.splits)
  from run obtain hl cl where
    fl: "following_layers (cell_list pn1) hs cs [1..<num_layers pn1] (h, [h], [c]) = Inr (h_1, hl, cl)"
    and p: "pn' = pn1\<lparr> h_list := Some hl, c_list := Some cl \<rparr>"
    by (auto split: sum.splits prod.splits)
  from following_layers_last [OF fl] have "hl \<noteq> [] \<and> last hl = h_1" by simp
  with p show ?thesis by simp
qed

lemma one_hot_selects_last:
  assumes "one_hot k j ! (k - 1) = 1" and "0 < k"
  shows "j = k - 1"
  using assms by (simp add: one_hot_nth split: if_splits)

lemma example_forward_eval:
  "forward (example_net 3 2) (example_dist 2) [[1]] (Some [[5]])
   = ((example_net 3 2)\<lparr> h_list := Some [[[6]], [[11]]], c_list := Some [[[0]], [[0]]] \<rparr>,
      Inr ([[0, 0, 1]], [0], [- 1]))"
  by (simp add: forward_def forward_rnn_def forward_head_def reset_state_def zeros_def scale2_def
        Linear_forward_def OneHotCategorical_sample_def OneHotCategorical_log_prob_def
        Normal_log_prob_def one_hot_def sample_step_def col_def cat1_def mul2_def unsqueeze1_def
        example_net_def example_dist_def PolicyNet_init_def example_cell_def upt_rec Let_def)

lemma example_forward_eval0:
  "snd (forward (example_net 3 2) (example_dist 0) [[1]] (Some [[5]]))
   = Inr ([[1, 0, 0]], [6], [- 3])"
  by (simp add: forward_def forward_rnn_def forward_head_def reset_state_def zeros_def scale2_def
        Linear_forward_def OneHotCategorical_sample_def OneHotCategorical_log_prob_def
        Normal_log_prob_def one_hot_def sample_step_def col_def cat1_def mul2_def unsqueeze1_def
        example_net_def example_dist_def PolicyNet_init_def example_cell_def upt_rec Let_def)

text \<open>
  Claim C5. For a net built with \<open>num_actions = k\<close>, whenever \<^verbatim>\<open>forward\<close> returns, every
  row of the returned decision has \<open>k\<close> entries and (the drawn category being one of the
  \<open>k\<close> categories, as the library's sampler guarantees) is one-hot; and in every row
  whose decision selects dimension \<open>k - 1\<close> the returned scaled action value is \<open>0\<close> and
  the returned log-probability is the log-probability of the decision alone.
\<close>

theorem noop_dimension_contributes_nothing:
  assumes "constructed pn"
    and "forward pn D state encoding = (pn', Inr (decision, final_action_values, log_prob))"
    and "h_list pn' = Some hs'"
    and "b < length decision"
  shows "length (decision ! b) = num_actions pn \<and>
         (categorical_sample D b < num_actions pn \<longrightarrow>
            (\<exists>j<num_actions pn. \<forall>i<num_actions pn. decision ! b ! i = (if i = j then 1 else 0))) \<and>
         (decision ! b ! (num_actions pn - 1) = 1 \<longrightarrow>
            final_action_values ! b = 0 \<and>
            log_prob ! b =
              OneHotCategorical_log_prob D (Linear_forward (FC_decision pn) (last hs')) decision ! b)"
proof -
  let ?k = "num_actions pn"
  let ?j = "categorical_sample D b"
  from forward_Inr [OF assms(2)] obtain h_1 where
    rnn: "forward_rnn pn state encoding = (pn', Inr h_1)"
    and head: "forward_head pn' D h_1 = Inr (decision, final_action_values, log_prob)"
    by blast
  obtain x y where frame: "pn' = pn\<lparr> h_list := x, c_list := y \<rparr>"
    using forward_rnn_frame [of pn state encoding] rnn by auto
  have fc: "FC_decision pn' = FC_decision pn" "num_actions pn' = ?k" "act_lim pn' = act_lim pn"
    by (simp_all add: frame)
  have h1: "last hs' = h_1" using forward_rnn_Inr [OF rnn] assms(3) by auto
  let ?logits = "Linear_forward (FC_decision pn) h_1"
  have dec: "decision = OneHotCategorical_sample D ?logits"
    and k2: "2 \<le> ?k"
    and lens: "length final_action_values = length h_1" "length log_prob = length h_1"
    using forward_head_Inr(1-4) [OF head] fc by simp_all
  have bh: "b < length h_1" using assms(4) dec by simp
  have kf: "out_features (FC_decision pn) = ?k" using assms(1) by (simp add: constructed_def)
  have row: "decision ! b = one_hot ?k ?j"
    using bh kf by (simp add: dec OneHotCategorical_sample_nth)
  from forward_head_Inr(5) [OF head bh] obtain xs ys where
    lx: "length (xs @ [0]) = length (decision ! b)"
    and ly: "length (ys @ [0]) = length (decision ! b)"
    and v: "final_action_values ! b = sum_list (map2 (*) (xs @ [0]) (decision ! b)) * act_lim pn"
    and l: "log_prob ! b = OneHotCategorical_log_prob D ?logits decision ! b
                          + sum_list (map2 (*) (ys @ [0]) (decision ! b))"
    using fc by auto
  have len: "length (decision ! b) = ?k" using row by simp
  have hot: "\<exists>j<?k. \<forall>i<?k. decision ! b ! i = (if i = j then 1 else 0)" if "?j < ?k"
    using that row by (intro exI [of _ ?j]) (simp add: one_hot_nth)
  have noop: "final_action_values ! b = 0 \<and>
            log_prob ! b = OneHotCategorical_log_prob D (Linear_forward (FC_decision pn) (last hs')) decision ! b"
    if sel: "decision ! b ! (?k - 1) = 1"
  proof -
    have j: "?j = ?k - 1" using sel row k2 one_hot_selects_last [of ?k ?j] by simp
    have jk: "?k - 1 < ?k" using k2 by simp
    have lxs: "length xs = ?k - 1" "length ys = ?k - 1" using lx ly len by simp_all
    have "sum_list (map2 (*) (xs @ [0]) (decision ! b)) = (xs @ [0]) ! (?k - 1)"
      using sum_list_one_hot_select [of "xs @ [0]" ?k "?k - 1"] lx len jk row j by simp
    then have sx: "sum_list (map2 (*) (xs @ [0]) (decision ! b)) = 0"
      using lxs by (simp add: nth_append)
    have "sum_list (map2 (*) (ys @ [0]) (decision ! b)) = (ys @ [0]) ! (?k - 1)"
      using sum_list_one_hot_select [of "ys @ [0]" ?k "?k - 1"] ly len jk row j by simp
    then have sy: "sum_list (map2 (*) (ys @ [0]) (decision ! b)) = 0"
      using lxs by (simp add: nth_append)
    show ?thesis using v l sx sy h1 by simp
  qed
  show ?thesis using len hot noop by blast
qed

theorem noop_dimension_contributes_nothing_witness:
  "constructed (example_net 3 2) \<and>
   forward (example_net 3 2) (example_dist 2) [[1]] (Some [[5]])
     = ((example_net 3 2)\<lparr> h_list := Some [[[6]], [[11]]], c_list := Some [[[0]], [[0]]] \<rparr>,
        Inr ([[0, 0, 1]], [0], [- 1])) \<and>
   (0::nat) < length [[0, 0, 1 :: real]] \<and>
   categorical_sample (example_dist 2) 0 < num_actions (example_net 3 2) \<and>
   [[0, 0, 1 :: real]] ! 0 ! (num_actions (example_net 3 2) - 1) = 1 \<and>
   length ([[0, 0, 1 :: real]] ! 0) = num_actions (example_net 3 2) \<and>
   [[0, 0, 1 :: real]] ! 0 ! 0 = 0 \<and> [[0, 0, 1 :: real]] ! 0 ! 1 = 0 \<and>
   [0 :: real] ! 0 = 0 \<and>
   [- 1 :: real] ! 0 =
     OneHotCategorical_log_prob (example_dist 2)
       (Linear_forward (FC_decision (example_net 3 2)) (last [[[6]], [[11]]])) [[0, 0, 1]] ! 0"
proof -
  let ?pn' = "(example_net 3 2)\<lparr> h_list := Some [[[6]], [[11]]], c_list := Some [[[0]], [[0]]] \<rparr>"
  have c: "constructed (example_net 3 2)" by (simp add: example_net_def constructed_init)
  have h: "h_list ?pn' = Some [[[6]], [[11]]]" by simp
  have b: "(0::nat) < length [[0, 0, 1 :: real]]" by simp
  have k: "num_actions (example_net 3 2) = 3" by (simp add: example_net_def PolicyNet_init_def)
  have s: "categorical_sample (example_dist 2) 0 < num_actions (example_net 3 2)"
    by (simp add: k example_dist_def)
  have sel: "[[0, 0, 1 :: real]] ! 0 ! (num_actions (example_net 3 2) - 1) = 1"
    by (simp add: k)
  from noop_dimension_contributes_nothing [OF c example_forward_eval h b] s sel
  show ?thesis using c example_forward_eval by simp
qed

text \<open>
  Claim C10. With \<open>num_actions = 1\<close> every call of \<^verbatim>\<open>forward\<close> raises: the loop of lines
  134--141 runs zero times, \<^verbatim>\<open>action_values\<close> is still \<^verbatim>\<open>None\<close> and line 144 applies
  \<^verbatim>\<open>torch.cat\<close> to it (a TypeError, unless the call has failed before). With
  \<open>num_actions \<ge> 2\<close> the loop never ends with \<^verbatim>\<open>None\<close>, whatever the means and standard
  deviations are, so that branch is not reached.
\<close>

theorem forward_requires_two_actions:
  "(num_actions pn = 1 \<longrightarrow>
      forward_head pn D h_1 = Inl TypeError \<and> (\<exists>e. snd (forward pn D state encoding) = Inl e)) \<and>
   (2 \<le> num_actions pn \<longrightarrow>
      sample_loop D values_mean values_std [0..<num_actions pn - 1] None \<noteq> Inr None)"
proof (intro conjI impI)
  assume "num_actions pn = 1"
  then show "forward_head pn D h_1 = Inl TypeError"
    by (simp add: forward_head_no_loop)
next
  assume "num_actions pn = 1"
  then show "\<exists>e. snd (forward pn D state encoding) = Inl e"
    by (simp add: forward_fails_without_loop)
next
  assume "2 \<le> num_actions pn"
  then have "[0..<num_actions pn - 1] \<noteq> []" by simp
  then show "sample_loop D values_mean values_std [0..<num_actions pn - 1] None \<noteq> Inr None"
    by (rule sample_loop_not_None)
qed

theorem forward_requires_two_actions_witness:
  "num_actions (example_net 1 2) = 1 \<and>
   forward_head (example_net 1 2) (example_dist 0) [[11]] = Inl TypeError \<and>
   snd (forward (example_net 1 2) (example_dist 0) [[1]] (Some [[5]])) = Inl TypeError \<and>
   2 \<le> num_actions (example_net 3 2) \<and>
   sample_loop (example_dist 0) [[0, 1, 2]] [[1, 1, 1]] [0..<num_actions (example_net 3 2) - 1] None
     \<noteq> Inr None \<and>
   snd (forward (example_net 3 2) (example_dist 0) [[1]] (Some [[5]])) = Inr ([[1, 0, 0]], [6], [- 3])"
proof -
  have k1: "num_actions (example_net 1 2) = 1" by (simp add: example_net_def PolicyNet_init_def)
  have k3: "2 \<le> num_actions (example_net 3 2)" by (simp add: example_net_def PolicyNet_init_def)
  have e: "snd (forward (example_net 1 2) (example_dist 0) [[1]] (Some [[5]])) = Inl TypeError"
    by (simp add: forward_def forward_rnn_def forward_head_def reset_state_def zeros_def scale2_def
        example_net_def PolicyNet_init_def example_cell_def upt_rec Let_def)
  from forward_requires_two_actions [of "example_net 1 2" "example_dist 0" "[[11]]" "[[1]]" "Some [[5]]"]
       forward_requires_two_actions [of "example_net 3 2" "example_dist 0" "[[11]]" "[[1]]" "Some [[5]]"
          "[[0, 1, 2]]" "[[1, 1, 1]]"]
  show ?thesis using k1 k3 e example_forward_eval0 by simp
qed

section \<open>Properties of Encoder.forward\<close>

lemma Encoder_forward_shape:
  assumes "in_size = input_size_E enc" and "0 < num_layers_E enc"
  shows "Encoder_forward enc (batch, seq_len, in_size) None None =
           Inr (if hidden_size_E enc = 1 then [batch] else [batch, hidden_size_E enc])"
  using assms by (simp add: Encoder_forward_def LSTM_h_n_def index_last_def squeeze_def)

text \<open>
  Claim C9 says that the encoding has the shape \<open>(batch, hidden_size)\<close> for every
  configured \<open>hidden_size\<close>, as the comment of line 33 does. The code evaluated on an
  input of shape \<open>(2, 3, 4)\<close>: with \<open>hidden_size = 1\<close> the \<^verbatim>\<open>squeeze(1)\<close> of line 34 removes
  the second dimension and the result has the shape \<open>(2,)\<close>, not \<open>(2, 1)\<close>; with
  \<open>hidden_size = 5\<close> it is \<open>(2, 5)\<close>. (\<open>Encoder_forward_shape\<close> gives the shape for
  every encoder with at least one layer.)
\<close>

theorem encoder_squeezes_hidden_size_one:
  "Encoder_forward (Encoder_init 4 2 1 2 (85 / 100)) (2, 3, 4) None None = Inr [2] \<and>
   [2] \<noteq> [2, hidden_size_E (Encoder_init 4 2 1 2 (85 / 100))] \<and>
   Encoder_forward (Encoder_init 4 2 5 2 (85 / 100)) (2, 3, 4) None None = Inr [2, 5]"
  by (simp add: Encoder_forward_def LSTM_h_n_def index_last_def squeeze_def Encoder_init_def)

section \<open>Properties of the update\<close>

lemma clamp_grads_data: "map p_data (fst (clamp_grads ps)) = map p_data ps"
  by (induction ps) (auto split: option.splits prod.splits)

lemma optimize_model_detached:
  assumes "list_all (\<lambda>t. \<not> lp_requires_grad t) batch_log_prob"
  shows "(\<exists>e. snd (optimize_model T params batch_log_prob batch_rewards GAMMA) = Some e) \<and>
         map p_data (fst (optimize_model T params batch_log_prob batch_rewards GAMMA)) = map p_data params"
proof -
  have "\<not> list_ex lp_requires_grad batch_log_prob"
    using assms by (simp add: list_all_iff list_ex_iff)
  then show ?thesis
    by (cases "optimize_model_loss GAMMA (map lp_data batch_log_prob) batch_rewards")
       (simp_all add: optimize_model_def backward_def Let_def comp_def)
qed

lemma optimize_model_detached_backward:
  assumes "list_all (\<lambda>t. \<not> lp_requires_grad t) batch_log_prob"
    and "optimize_model_loss GAMMA (map lp_data batch_log_prob) batch_rewards = Inr loss"
  shows "snd (optimize_model T params batch_log_prob batch_rewards GAMMA) = Some RuntimeError"
proof -
  have "\<not> list_ex lp_requires_grad batch_log_prob"
    using assms(1) by (simp add: list_all_iff list_ex_iff)
  then show ?thesis using assms(2)
    by (simp add: optimize_model_def backward_def Let_def)
qed

lemma example_loss: "optimize_model_loss (1 / 2) [[1, 2], [3]] [[1, 1], [2]] = Inr (- (19 / 4))"
  by (simp add: optimize_model_loss_def Let_def mul1_def reward_to_go_rec upt_rec)

lemma optimize_model_tracked_example:
  "optimize_model example_optim [\<lparr> p_data = [7], p_grad = None \<rparr>]
          [\<lparr> lp_data = [1, 2], lp_requires_grad = True \<rparr>, \<lparr> lp_data = [3], lp_requires_grad = True \<rparr>]
          [[1, 1], [2]] (1 / 2) = ([\<lparr> p_data = [6], p_grad = Some [1] \<rparr>], None)"
  by (simp add: optimize_model_def backward_def Let_def example_optim_def example_loss clamp_def)

text \<open>
  Claim C4 says that on a batch of log-probabilities produced without gradient tracking
  \<^verbatim>\<open>optimize_model\<close> completes without raising. On the batch of two such episodes below
  the call raises at line 192.
\<close>

theorem detached_batch_counterexample:
  "list_all (\<lambda>t. \<not> lp_requires_grad t)
     [\<lparr> lp_data = [1, 2], lp_requires_grad = False \<rparr>, \<lparr> lp_data = [3], lp_requires_grad = False \<rparr>] \<and>
   snd (optimize_model example_optim [\<lparr> p_data = [7], p_grad = None \<rparr>]
          [\<lparr> lp_data = [1, 2], lp_requires_grad = False \<rparr>, \<lparr> lp_data = [3], lp_requires_grad = False \<rparr>]
          [[1, 1], [2]] (1 / 2)) = Some RuntimeError"
  by (simp add: optimize_model_def backward_def Let_def example_loss)

text \<open>
  Claim C4, amended. On every batch in which every log-probability tensor was produced
  without gradient tracking, \<^verbatim>\<open>optimize_model\<close> raises; when the loss of line 189 can be
  computed, the exception is the one of \<^verbatim>\<open>loss.backward()\<close> at line 192, before any
  optimizer step. The entries of the parameters are unchanged.
\<close>

theorem detached_batch_raises:
  assumes "list_all (\<lambda>t. \<not> lp_requires_grad t) batch_log_prob"
  shows "(\<exists>e. snd (optimize_model T params batch_log_prob batch_rewards GAMMA) = Some e) \<and>
         (\<forall>loss. optimize_model_loss GAMMA (map lp_data batch_log_prob) batch_rewards = Inr loss \<longrightarrow>
            snd (optimize_model T params batch_log_prob batch_rewards GAMMA) = Some RuntimeError) \<and>
         map p_data (fst (optimize_model T params batch_log_prob batch_rewards GAMMA)) = map p_data params"
  using optimize_model_detached [OF assms] optimize_model_detached_backward [OF assms]
  by blast

theorem detached_batch_raises_witness:
  "list_all (\<lambda>t. \<not> lp_requires_grad t)
     [\<lparr> lp_data = [1, 2], lp_requires_grad = False \<rparr>, \<lparr> lp_data = [3], lp_requires_grad = False \<rparr>] \<and>
   optimize_model_loss (1 / 2)
     (map lp_data [\<lparr> lp_data = [1, 2], lp_requires_grad = False \<rparr>, \<lparr> lp_data = [3], lp_requires_grad = False \<rparr>])
     [[1, 1], [2]] = Inr (- (19 / 4)) \<and>
   optimize_model example_optim [\<lparr> p_data = [7], p_grad = Some [1] \<rparr>]
          [\<lparr> lp_data = [1, 2], lp_requires_grad = False \<rparr>, \<lparr> lp_data = [3], lp_requires_grad = False \<rparr>]
          [[1, 1], [2]] (1 / 2) = ([\<lparr> p_data = [7], p_grad = None \<rparr>], Some RuntimeError)"
proof -
  let ?b = "[\<lparr> lp_data = [1, 2], lp_requires_grad = False \<rparr>, \<lparr> lp_data = [3], lp_requires_grad = False \<rparr>]"
  have h: "list_all (\<lambda>t. \<not> lp_requires_grad t) ?b" by simp
  have l: "optimize_model_loss (1 / 2) (map lp_data ?b) [[1, 1], [2]] = Inr (- (19 / 4))"
    by (simp add: example_loss)
  from detached_batch_raises [OF h, of example_optim "[\<lparr> p_data = [7], p_grad = Some [1] \<rparr>]" "[[1, 1], [2]]" "1 / 2"]
  show ?thesis using h l
    by (simp add: optimize_model_def backward_def Let_def example_optim_def)
qed

section \<open>Properties of the loss in rounded arithmetic\<close>

lemma foldl_plus_sum_list: "foldl (\<lambda>a x. a + x) a xs = a + sum_list (xs :: real list)"
  by (induction xs arbitrary: a) (simp_all add: add.assoc)

lemma sum_fl_exact: "sum_fl (\<lambda>x. x) = sum_list"
  by (intro ext) (simp add: sum_fl_def foldl_plus_sum_list)

lemma mul1_fl_exact: "mul1_fl (\<lambda>x. x) = mul1"
  by (intro ext) (simp add: mul1_fl_def mul1_def)

lemma loss_loop_fl_exact: "loss_loop_fl (\<lambda>x. x) lps ws js acc = loss_loop lps ws js acc"
proof (induction js arbitrary: acc)
  case Nil
  then show ?case by simp
next
  case (Cons i js)
  show ?case
    by (cases "mul1 (lps ! i) (ws ! i)"; cases acc) (simp_all add: mul1_fl_exact sum_fl_exact Cons.IH)
qed

lemma rtg_assign_fl_exact: "rtg_assign_fl (\<lambda>x. x) = rtg_assign"
  by (intro ext) (simp add: rtg_assign_fl_def rtg_assign_def)

lemma reward_to_go_fl_exact: "reward_to_go_fl (\<lambda>x. x) = reward_to_go"
  by (intro ext) (simp add: reward_to_go_fl_def reward_to_go_def rtg_assign_fl_exact)

lemma optimize_model_loss_fl_exact:
  "optimize_model_loss_fl (\<lambda>x. x) GAMMA lps rs = optimize_model_loss GAMMA lps rs"
  by (simp add: optimize_model_loss_fl_def optimize_model_loss_def loss_loop_fl_exact
      reward_to_go_fl_exact)



lemma foldl_rnd_mono:
  fixes rnd :: "real \<Rightarrow> real"
  assumes "mono rnd" and "list_all2 (\<le>) xs ys" and "a \<le> b"
  shows "foldl (\<lambda>a x. rnd (a + x)) a xs \<le> foldl (\<lambda>a x. rnd (a + x)) b ys"
  using assms(2,3)
proof (induction xs ys arbitrary: a b rule: list_all2_induct)
  case Nil
  then show ?case by simp
next
  case (Cons x xs y ys)
  have "rnd (a + x) \<le> rnd (b + y)"
  proof (rule monoD [OF assms(1)])
    show "a + x \<le> b + y" using Cons.hyps(1) Cons.prems by simp
  qed
  then show ?case using Cons.IH by simp
qed

lemma sum_fl_mono:
  "mono rnd \<Longrightarrow> list_all2 (\<le>) xs ys \<Longrightarrow> sum_fl rnd xs \<le> sum_fl rnd ys"
  by (simp add: sum_fl_def foldl_rnd_mono)

lemma products_update_mono:
  fixes rnd :: "real \<Rightarrow> real"
  assumes "mono rnd" and "t < length lp" and "0 \<le> w ! t" and "lp ! t \<le> v"
  shows "list_all2 (\<le>) (map2 (\<lambda>x y. rnd (x * y)) lp w) (map2 (\<lambda>x y. rnd (x * y)) (lp[t := v]) w)"
proof (rule list_all2_all_nthI)
  show "length (map2 (\<lambda>x y. rnd (x * y)) lp w) = length (map2 (\<lambda>x y. rnd (x * y)) (lp[t := v]) w)"
    by simp
next
  fix u assume "u < length (map2 (\<lambda>x y. rnd (x * y)) lp w)"
  then have u: "u < length lp" "u < length w" by simp_all
  show "map2 (\<lambda>x y. rnd (x * y)) lp w ! u \<le> map2 (\<lambda>x y. rnd (x * y)) (lp[t := v]) w ! u"
  proof (cases "u = t")
    case True
    have "lp ! t * w ! t \<le> v * w ! t" using assms(3,4) by (simp add: mult_right_mono)
    then show ?thesis using u True assms(1) by (simp add: monoD)
  next
    case False
    then show ?thesis using u by simp
  qed
qed

lemma mul1_fl_same:
  "length a = length b \<Longrightarrow> mul1_fl rnd a b = Inr (map2 (\<lambda>x y. rnd (x * y)) a b)"
  by (simp add: mul1_fl_def)

text \<open>Two runs of the loop, the second on log-probabilities whose episode sums are not smaller.\<close>

lemma loss_loop_fl_mono:
  assumes "mono rnd"
    and "list_all (\<lambda>i. i < length ws \<and> length (lps ! i) = length (ws ! i) \<and>
                       length (lps' ! i) = length (ws ! i) \<and>
                       sum_fl rnd (map2 (\<lambda>x y. rnd (x * y)) (lps ! i) (ws ! i))
                         \<le> sum_fl rnd (map2 (\<lambda>x y. rnd (x * y)) (lps' ! i) (ws ! i))) js"
    and "rel_option (\<lambda>l' l. l' \<le> l) acc' acc"
  shows "\<exists>a a'. loss_loop_fl rnd lps ws js acc = Inr a \<and> loss_loop_fl rnd lps' ws js acc' = Inr a' \<and>
                rel_option (\<lambda>l' l. l' \<le> l) a' a \<and> (js \<noteq> [] \<longrightarrow> a \<noteq> None)"
  using assms(2,3)
proof (induction js arbitrary: acc acc')
  case Nil
  then show ?case by simp
next
  case (Cons i js)
  let ?p = "map2 (\<lambda>x y. rnd (x * y)) (lps ! i) (ws ! i)"
  let ?p' = "map2 (\<lambda>x y. rnd (x * y)) (lps' ! i) (ws ! i)"
  let ?n = "Some (case acc of None \<Rightarrow> - sum_fl rnd ?p | Some l \<Rightarrow> rnd (l + - sum_fl rnd ?p))"
  let ?n' = "Some (case acc' of None \<Rightarrow> - sum_fl rnd ?p' | Some l \<Rightarrow> rnd (l + - sum_fl rnd ?p'))"
  from Cons.prems(1) have i: "i < length ws" "length (lps ! i) = length (ws ! i)"
    "length (lps' ! i) = length (ws ! i)" and s: "sum_fl rnd ?p \<le> sum_fl rnd ?p'"
    and rest: "list_all (\<lambda>i. i < length ws \<and> length (lps ! i) = length (ws ! i) \<and>
                       length (lps' ! i) = length (ws ! i) \<and>
                       sum_fl rnd (map2 (\<lambda>x y. rnd (x * y)) (lps ! i) (ws ! i))
                         \<le> sum_fl rnd (map2 (\<lambda>x y. rnd (x * y)) (lps' ! i) (ws ! i))) js"
    by simp_all
  have rel: "rel_option (\<lambda>l' l. l' \<le> l) ?n' ?n"
  proof (cases acc)
    case None
    then have "acc' = None" using Cons.prems(2) by (cases acc') simp_all
    then show ?thesis using None s by simp
  next
    case (Some l)
    then obtain l' where l': "acc' = Some l'" "l' \<le> l"
      using Cons.prems(2) by (cases acc') simp_all
    have "l' + - sum_fl rnd ?p' \<le> l + - sum_fl rnd ?p" using l'(2) s by simp
    then have "rnd (l' + - sum_fl rnd ?p') \<le> rnd (l + - sum_fl rnd ?p)"
      using assms(1) by (rule monoD [rotated])
    then show ?thesis using Some l' by simp
  qed
  from Cons.IH [OF rest rel] obtain a a' where
    "loss_loop_fl rnd lps ws js ?n = Inr a" "loss_loop_fl rnd lps' ws js ?n' = Inr a'"
    "rel_option (\<lambda>l' l. l' \<le> l) a' a" and ne: "js \<noteq> [] \<longrightarrow> a \<noteq> None"
    by blast
  moreover have "a \<noteq> None"
  proof (cases js)
    case Nil
    with calculation(1) show ?thesis by auto
  next
    case (Cons j rest)
    with ne show ?thesis by simp
  qed
  ultimately show ?case
    using i by (intro exI [of _ a] exI [of _ a']) (simp add: mul1_fl_same)
qed

lemma length_fold_rtg_assign_fl:
  "length (fold (rtg_assign_fl rnd g rs n) js rtg) = length rtg"
  by (induction js arbitrary: rtg) (simp_all add: rtg_assign_fl_def)

lemma length_reward_to_go_fl [simp]: "length (reward_to_go_fl rnd g rs) = length rs"
  by (simp add: reward_to_go_fl_def Let_def length_fold_rtg_assign_fl)

lemma loss_fl_update_mono:
  fixes rnd :: "real \<Rightarrow> real"
  assumes mono: "mono rnd"
    and len: "length batch_rewards = length batch_log_prob"
    and same: "\<And>j. j < length batch_log_prob \<Longrightarrow> length (batch_rewards ! j) = length (batch_log_prob ! j)"
    and i: "i < length batch_log_prob" and t: "t < length (batch_log_prob ! i)"
    and pos: "0 < reward_to_go_fl rnd GAMMA (batch_rewards ! i) ! t"
    and incr: "batch_log_prob ! i ! t < v"
  shows "\<exists>l l'. optimize_model_loss_fl rnd GAMMA batch_log_prob batch_rewards = Inr l \<and>
                optimize_model_loss_fl rnd GAMMA (batch_log_prob[i := (batch_log_prob ! i)[t := v]]) batch_rewards = Inr l' \<and>
                l' \<le> l"
proof -
  let ?lps = batch_log_prob
  let ?lps' = "batch_log_prob[i := (batch_log_prob ! i)[t := v]]"
  let ?ws = "map (reward_to_go_fl rnd GAMMA) batch_rewards"
  let ?B = "length batch_log_prob"
  let ?prod = "\<lambda>lp w. map2 (\<lambda>x y. rnd (x * y)) lp w"
  have "batch_log_prob \<noteq> []" using i by (cases batch_log_prob) simp_all
  then have ne: "[0..<?B] \<noteq> []" by simp
  have cond: "j < length ?ws \<and> length (?lps ! j) = length (?ws ! j) \<and>
              length (?lps' ! j) = length (?ws ! j) \<and>
              sum_fl rnd (?prod (?lps ! j) (?ws ! j)) \<le> sum_fl rnd (?prod (?lps' ! j) (?ws ! j))"
    if j: "j < ?B" for j
  proof (cases "j = i")
    case True
    have w: "?ws ! i = reward_to_go_fl rnd GAMMA (batch_rewards ! i)" using i len by simp
    have "list_all2 (\<le>) (?prod (?lps ! i) (?ws ! i)) (?prod ((?lps ! i)[t := v]) (?ws ! i))"
      using mono t pos incr by (intro products_update_mono) (simp_all add: w)
    then have "sum_fl rnd (?prod (?lps ! i) (?ws ! i)) \<le> sum_fl rnd (?prod ((?lps ! i)[t := v]) (?ws ! i))"
      by (rule sum_fl_mono [OF mono])
    then show ?thesis using True i len same [of i] by simp
  next
    case False
    then show ?thesis using j len same [of j] by simp
  qed
  have all: "list_all (\<lambda>j. j < length ?ws \<and> length (?lps ! j) = length (?ws ! j) \<and>
              length (?lps' ! j) = length (?ws ! j) \<and>
              sum_fl rnd (?prod (?lps ! j) (?ws ! j)) \<le> sum_fl rnd (?prod (?lps' ! j) (?ws ! j))) [0..<?B]"
    unfolding list_all_iff
  proof (intro ballI)
    fix j assume "j \<in> set [0..<?B]"
    then have "j < ?B" by simp
    then show "j < length ?ws \<and> length (?lps ! j) = length (?ws ! j) \<and>
              length (?lps' ! j) = length (?ws ! j) \<and>
              sum_fl rnd (?prod (?lps ! j) (?ws ! j)) \<le> sum_fl rnd (?prod (?lps' ! j) (?ws ! j))"
      by (rule cond)
  qed
  have rel0: "rel_option (\<lambda>l' (l::real). l' \<le> l) None None" by simp
  from loss_loop_fl_mono [OF mono all rel0] ne obtain a a' where
    r: "loss_loop_fl rnd ?lps ?ws [0..<?B] None = Inr a"
       "loss_loop_fl rnd ?lps' ?ws [0..<?B] None = Inr a'"
    and rel: "rel_option (\<lambda>l' l. l' \<le> l) a' a" and "a \<noteq> None"
    by blast
  then obtain l l' where ll: "a = Some l" "a' = Some l'" "l' \<le> l"
    by (cases a; cases a') simp_all
  have "l' / real ?B \<le> l / real ?B" using ll(3) by (simp add: divide_right_mono)
  then have "rnd (l' / real ?B) \<le> rnd (l / real ?B)" by (rule monoD [OF mono])
  then show ?thesis using r ll by (simp add: optimize_model_loss_fl_def Let_def)
qed

lemma f32_exponent_eq:
  assumes "2 powi e \<le> \<bar>x\<bar>" and "\<bar>x\<bar> < 2 powi (e + 1)" and "- 126 \<le> e"
  shows "f32_exponent x = e"
proof -
  have pos: "0 < \<bar>x\<bar>" using assms(1) by (smt (verit) zero_less_power_int)
  have "2 powr real_of_int e \<le> \<bar>x\<bar> \<and> \<bar>x\<bar> < 2 powr (real_of_int e + 1)"
    using assms(1,2) powr_real_of_int' [of 2 e] powr_real_of_int' [of 2 "e + 1"] by simp
  then have "\<lfloor>log 2 \<bar>x\<bar>\<rfloor> = e"
    using floor_log_eq_powr_iff [of "\<bar>x\<bar>" 2 e] pos by simp
  then show ?thesis using assms(3) by (simp add: f32_exponent_def)
qed

lemma round_f32_eval:
  assumes "2 powi e \<le> \<bar>x\<bar>" and "\<bar>x\<bar> < 2 powi (e + 1)" and "- 126 \<le> e"
  shows "round_f32 x = 2 powi (e - 23) * of_int (round_half_even (x / 2 powi (e - 23)))"
proof -
  have "x \<noteq> 0" using assms(1) by (smt (verit) zero_less_power_int abs_zero)
  then show ?thesis by (simp add: round_f32_def Let_def f32_exponent_eq [OF assms])
qed

lemma round_f32_0 [simp]: "round_f32 0 = 0"
  by (simp add: round_f32_def)

lemma round_f32_1: "round_f32 1 = 1"
  using round_f32_eval [of 0 1] by (simp add: round_half_even_def)

lemma round_f32_m5: "round_f32 (- 5) = - 5"
  using round_f32_eval [of 2 "- 5"] by (simp add: round_half_even_def)

lemma round_f32_5: "round_f32 5 = 5"
  using round_f32_eval [of 2 5] by (simp add: round_half_even_def)

lemma round_f32_tiny: "round_f32 (- (1 / 8388608)) = - (1 / 8388608)"
  using round_f32_eval [of "- 23" "- (1 / 8388608)"] by (simp add: round_half_even_def)

lemma round_f32_absorbs: "round_f32 (- (41943041 / 8388608)) = - 5"
  using round_f32_eval [of 2 "- (41943041 / 8388608)"] by (simp add: round_half_even_def)


lemma example_rtg_f32: "reward_to_go_fl round_f32 1 [0, 1] = [1, 1]"
  by (simp add: reward_to_go_fl_def rtg_assign_fl_def round_f32_1 upt_rec)

lemma example_loss_f32:
  "optimize_model_loss_fl round_f32 1 [[- 5, - (1 / 8388608)]] [[0, 1]] = Inr 5"
  by (simp add: optimize_model_loss_fl_def mul1_fl_def sum_fl_def example_rtg_f32
      round_f32_m5 round_f32_5 round_f32_tiny round_f32_absorbs)

lemma example_loss_f32_raised:
  "optimize_model_loss_fl round_f32 1 [[- 5, 0]] [[0, 1]] = Inr 5"
  by (simp add: optimize_model_loss_fl_def mul1_fl_def sum_fl_def example_rtg_f32
      round_f32_m5 round_f32_5)

lemma round_half_even_cases: "round_half_even y = \<lfloor>y\<rfloor> \<or> round_half_even y = \<lfloor>y\<rfloor> + 1"
  by (simp add: round_half_even_def Let_def)

lemma round_half_even_mono:
  assumes "y \<le> z"
  shows "round_half_even y \<le> round_half_even z"
proof (cases "\<lfloor>y\<rfloor> = \<lfloor>z\<rfloor>")
  case True
  then have "y - of_int \<lfloor>y\<rfloor> \<le> z - of_int \<lfloor>z\<rfloor>" using assms by simp
  then show ?thesis using True by (auto simp: round_half_even_def Let_def)
next
  case False
  then have "\<lfloor>y\<rfloor> + 1 \<le> \<lfloor>z\<rfloor>" using floor_mono [OF assms] by simp
  then show ?thesis
    using round_half_even_cases [of y] round_half_even_cases [of z] by auto
qed

lemma round_half_even_of_int [simp]: "round_half_even (of_int n) = n"
  by (simp add: round_half_even_def)

lemma round_half_even_minus: "round_half_even (- y) = - round_half_even y"
proof (cases "y = of_int \<lfloor>y\<rfloor>")
  case True
  have "round_half_even (- real_of_int \<lfloor>y\<rfloor>) = - round_half_even (real_of_int \<lfloor>y\<rfloor>)"
    by (simp flip: of_int_minus)
  with True show ?thesis by metis
next
  case False
  then have lt: "of_int \<lfloor>y\<rfloor> < y" using of_int_floor_le [of y] by (metis order_less_le)
  have fl: "\<lfloor>- y\<rfloor> = - \<lfloor>y\<rfloor> - 1"
  proof (rule floor_unique)
    show "of_int (- \<lfloor>y\<rfloor> - 1) \<le> - y" using floor_correct [of y] by simp linarith
    show "- y < of_int (- \<lfloor>y\<rfloor> - 1) + 1" using lt by simp
  qed
  show ?thesis
    unfolding round_half_even_def Let_def fl
    by (auto simp: algebra_simps)
qed

lemma f32_exponent_minus [simp]: "f32_exponent (- x) = f32_exponent x"
  by (simp add: f32_exponent_def)

lemma round_f32_minus: "round_f32 (- x) = - round_f32 x"
  by (simp add: round_f32_def Let_def round_half_even_minus)

lemma f32_exponent_bounds:
  assumes "0 < x"
  shows "- 126 \<le> f32_exponent x" and "x < 2 powi (f32_exponent x + 1)"
    and "- 126 < f32_exponent x \<Longrightarrow> 2 powi f32_exponent x \<le> x"
proof -
  let ?k = "\<lfloor>log 2 x\<rfloor>"
  have "2 powr real_of_int ?k \<le> x \<and> x < 2 powr (real_of_int ?k + 1)"
    using floor_log_eq_powr_iff [of x 2 ?k] assms by simp
  then have k: "2 powi ?k \<le> x" "x < 2 powi (?k + 1)"
    using powr_real_of_int' [of 2 ?k] powr_real_of_int' [of 2 "?k + 1"] by simp_all
  have e: "f32_exponent x = max (- 126) ?k" using assms by (simp add: f32_exponent_def)
  show "- 126 \<le> f32_exponent x" by (simp add: e)
  have "(2::real) powi (?k + 1) \<le> 2 powi (f32_exponent x + 1)"
    by (intro power_int_increasing) (simp_all add: e)
  with k(2) show "x < 2 powi (f32_exponent x + 1)" by simp
  show "2 powi f32_exponent x \<le> x" if "- 126 < f32_exponent x"
    using that k(1) by (simp add: e max_def split: if_splits)
qed

lemma f32_exponent_mono:
  assumes "0 < x" and "x \<le> y"
  shows "f32_exponent x \<le> f32_exponent y"
proof -
  have "log 2 x \<le> log 2 y" using assms by simp
  then have "\<lfloor>log 2 x\<rfloor> \<le> \<lfloor>log 2 y\<rfloor>" by (rule floor_mono)
  then show ?thesis using assms by (simp add: f32_exponent_def)
qed

lemma ulp_times:
  "(2::real) powi (e - 23) * 16777216 = 2 powi (e + 1)"
  "(2::real) powi (e - 23) * 8388608 = 2 powi e"
proof -
  have "(2::real) powi (e - 23 + 24) = 2 powi (e - 23) * 2 powi 24"
    by (rule power_int_add) simp
  then show "(2::real) powi (e - 23) * 16777216 = 2 powi (e + 1)" by (simp add: add.commute)
  have "(2::real) powi (e - 23 + 23) = 2 powi (e - 23) * 2 powi 23"
    by (rule power_int_add) simp
  then show "(2::real) powi (e - 23) * 8388608 = 2 powi e" by simp
qed

lemma round_f32_pos_bounds:
  assumes "0 < x"
  shows "0 \<le> round_f32 x" and "round_f32 x \<le> 2 powi (f32_exponent x + 1)"
    and "- 126 < f32_exponent x \<Longrightarrow> 2 powi f32_exponent x \<le> round_f32 x"
proof -
  let ?e = "f32_exponent x"
  let ?u = "(2::real) powi (?e - 23)"
  have u: "0 < ?u" by simp
  have r: "round_f32 x = ?u * of_int (round_half_even (x / ?u))"
    using assms by (simp add: round_f32_def Let_def)
  have "round_half_even 0 \<le> round_half_even (x / ?u)"
    using assms u by (intro round_half_even_mono) simp
  then have "0 \<le> round_half_even (x / ?u)" using round_half_even_of_int [of 0] by simp
  then show "0 \<le> round_f32 x" using u by (simp add: r)
  have "x < ?u * 2 ^ 24" using f32_exponent_bounds(2) [OF assms] by (simp add: ulp_times)
  then have "x / ?u \<le> of_int (2 ^ 24)" using u by (simp add: field_simps)
  then have "round_half_even (x / ?u) \<le> round_half_even (of_int (2 ^ 24))"
    by (rule round_half_even_mono)
  then have "round_half_even (x / ?u) \<le> 2 ^ 24" by (simp only: round_half_even_of_int)
  then have "real_of_int (round_half_even (x / ?u)) \<le> 2 ^ 24"
    by (metis of_int_le_iff of_int_numeral of_int_power)
  then have "?u * of_int (round_half_even (x / ?u)) \<le> ?u * 2 ^ 24"
    using u by (simp add: mult_left_mono)
  then show "round_f32 x \<le> 2 powi (?e + 1)" by (simp add: r ulp_times)
  show "2 powi ?e \<le> round_f32 x" if "- 126 < ?e"
  proof -
    have "?u * 2 ^ 23 \<le> x" using f32_exponent_bounds(3) [OF assms that] by (simp add: ulp_times)
    then have "of_int (2 ^ 23) \<le> x / ?u" using u by (simp add: field_simps)
    then have "round_half_even (of_int (2 ^ 23)) \<le> round_half_even (x / ?u)"
      by (rule round_half_even_mono)
    then have "2 ^ 23 \<le> round_half_even (x / ?u)" by (simp only: round_half_even_of_int)
    then have "2 ^ 23 \<le> real_of_int (round_half_even (x / ?u))"
      by (metis of_int_le_iff of_int_numeral of_int_power)
    then have "?u * 2 ^ 23 \<le> ?u * of_int (round_half_even (x / ?u))"
      using u by (simp add: mult_left_mono)
    then show ?thesis by (simp add: r ulp_times)
  qed
qed

lemma round_f32_mono_pos:
  assumes "0 < x" and "x \<le> y"
  shows "round_f32 x \<le> round_f32 y"
proof -
  have y: "0 < y" using assms by simp
  let ?ex = "f32_exponent x" and ?ey = "f32_exponent y"
  have le: "?ex \<le> ?ey" using assms by (rule f32_exponent_mono)
  show ?thesis
  proof (cases "?ex = ?ey")
    case True
    let ?u = "(2::real) powi (?ex - 23)"
    have u: "0 < ?u" by simp
    have "x / ?u \<le> y / ?u" using assms(2) u by (simp add: divide_right_mono)
    then have "round_half_even (x / ?u) \<le> round_half_even (y / ?u)"
      by (rule round_half_even_mono)
    then have "?u * of_int (round_half_even (x / ?u)) \<le> ?u * of_int (round_half_even (y / ?u))"
      using u by (simp add: mult_left_mono)
    then show ?thesis using assms(1) y True by (simp add: round_f32_def Let_def)
  next
    case False
    with le have lt: "?ex + 1 \<le> ?ey" by simp
    have "- 126 < ?ey" using f32_exponent_bounds(1) [OF assms(1)] lt by simp
    then have "2 powi ?ey \<le> round_f32 y" by (rule round_f32_pos_bounds(3) [OF y])
    moreover have "(2::real) powi (?ex + 1) \<le> 2 powi ?ey"
      using lt by (intro power_int_increasing) simp_all
    moreover have "round_f32 x \<le> 2 powi (?ex + 1)" by (rule round_f32_pos_bounds(2) [OF assms(1)])
    ultimately show ?thesis by linarith
  qed
qed

lemma mono_round_f32: "mono round_f32"
proof (rule monoI)
  fix x y :: real
  assume xy: "x \<le> y"
  consider "0 < x" | "x = 0" | "x < 0" "0 \<le> y" | "x < 0" "y < 0" by linarith
  then show "round_f32 x \<le> round_f32 y"
  proof cases
    case 1
    then show ?thesis using xy by (rule round_f32_mono_pos)
  next
    case 2
    show ?thesis
    proof (cases "y = 0")
      case True
      with 2 show ?thesis by simp
    next
      case False
      then have "0 < y" using 2 xy by simp
      then show ?thesis using 2 round_f32_pos_bounds(1) [of y] by simp
    qed
  next
    case 3
    have "0 \<le> round_f32 (- x)" using 3(1) round_f32_pos_bounds(1) [of "- x"] by simp
    then have "round_f32 x \<le> 0" using round_f32_minus [of x] by simp
    moreover have "0 \<le> round_f32 y"
      using 3(2) round_f32_pos_bounds(1) [of y] by (cases "y = 0") simp_all
    ultimately show ?thesis by simp
  next
    case 4
    have "round_f32 (- y) \<le> round_f32 (- x)"
      using 4 xy by (intro round_f32_mono_pos) simp_all
    then show ?thesis by (simp add: round_f32_minus)
  qed
qed

lemma round_f32_values:
  "round_f32 (- 1) = - 1" "round_f32 (- 6) = - 6" "round_f32 6 = 6"
  "round_f32 (- (1 / 2)) = - (1 / 2)" "round_f32 (- (11 / 2)) = - (11 / 2)"
  "round_f32 (11 / 2) = 11 / 2"
  using round_f32_eval [of 0 "- 1"] round_f32_eval [of 2 "- 6"] round_f32_eval [of 2 6]
    round_f32_eval [of "- 1" "- (1 / 2)"] round_f32_eval [of 2 "- (11 / 2)"]
    round_f32_eval [of 2 "11 / 2"]
  by (simp_all add: round_half_even_def)

lemma example_loss_f32_one:
  "optimize_model_loss_fl round_f32 1 [[- 5, - 1]] [[0, 1]] = Inr 6"
  by (simp add: optimize_model_loss_fl_def mul1_fl_def sum_fl_def example_rtg_f32
      round_f32_m5 round_f32_values)

lemma example_loss_f32_half:
  "optimize_model_loss_fl round_f32 1 [[- 5, - (1 / 2)]] [[0, 1]] = Inr (11 / 2)"
  by (simp add: optimize_model_loss_fl_def mul1_fl_def sum_fl_def example_rtg_f32
      round_f32_m5 round_f32_values)

text \<open>
  Claim C8 says that raising a single log-probability whose reward-to-go is positive
  strictly decreases the loss that \<^verbatim>\<open>optimize_model\<close> computes. In binary32 the increase
  can be absorbed: with the log-probabilities \<open>[-5, -1/8388608]\<close>, the rewards \<open>[0, 1]\<close> and
  \<open>GAMMA = 1\<close> the reward-to-go is \<open>[1, 1]\<close> and the loss is \<open>5\<close>; raising the second
  log-probability to \<open>0\<close> leaves the loss at \<open>5\<close>.
\<close>

theorem rounded_loss_not_strictly_decreasing:
  "(1::nat) < length ([[- 5, - (1 / 8388608)]] ! 0 :: real list) \<and>
   0 < reward_to_go_fl round_f32 1 ([[0, 1]] ! 0) ! 1 \<and>
   [[- 5, - (1 / 8388608 :: real)]] ! 0 ! 1 < 0 \<and>
   optimize_model_loss_fl round_f32 1 [[- 5, - (1 / 8388608)]] [[0, 1]] = Inr 5 \<and>
   optimize_model_loss_fl round_f32 1
     ([[- 5, - (1 / 8388608)]][0 := ([[- 5, - (1 / 8388608)]] ! 0)[1 := 0]]) [[0, 1]] = Inr 5 \<and>
   \<not> (5 < (5 :: real))"
  by (simp add: example_loss_f32 example_loss_f32_raised example_rtg_f32)

text \<open>
  Claim C8, amended. With everything else fixed, raising a single log-probability whose
  reward-to-go is positive never increases the loss that \<^verbatim>\<open>optimize_model\<close> computes,
  whatever monotone rounding the arithmetic applies (binary32 is one,
  \<open>mono_round_f32\<close>), as long as the values stay finite; and the decrease is strict in
  exact arithmetic. Both losses are computed (neither call raises).
\<close>

theorem loss_never_increases:
  fixes rnd :: "real \<Rightarrow> real"
  assumes "mono rnd"
    and "length batch_rewards = length batch_log_prob"
    and "\<forall>j<length batch_log_prob. length (batch_rewards ! j) = length (batch_log_prob ! j)"
    and "i < length batch_log_prob" and "t < length (batch_log_prob ! i)"
    and "0 < reward_to_go_fl rnd GAMMA (batch_rewards ! i) ! t"
    and "batch_log_prob ! i ! t < v"
  shows "\<exists>l l'. optimize_model_loss_fl rnd GAMMA batch_log_prob batch_rewards = Inr l \<and>
                optimize_model_loss_fl rnd GAMMA
                  (batch_log_prob[i := (batch_log_prob ! i)[t := v]]) batch_rewards = Inr l' \<and>
                l' \<le> l \<and> ((\<forall>x. rnd x = x) \<longrightarrow> l' < l)"
proof -
  from loss_fl_update_mono [of rnd batch_rewards batch_log_prob i t GAMMA v] assms
  obtain l l' where
    r: "optimize_model_loss_fl rnd GAMMA batch_log_prob batch_rewards = Inr l"
       "optimize_model_loss_fl rnd GAMMA
          (batch_log_prob[i := (batch_log_prob ! i)[t := v]]) batch_rewards = Inr l'"
    and le: "l' \<le> l"
    by auto
  have "l' < l" if exact: "\<forall>x. rnd x = x"
  proof -
    have id: "rnd = (\<lambda>x. x)" using exact by (intro ext) simp
    from loss_update_decreases [of batch_rewards batch_log_prob i t GAMMA v] assms
    obtain m m' where
      "optimize_model_loss GAMMA batch_log_prob batch_rewards = Inr m"
      "optimize_model_loss GAMMA (batch_log_prob[i := (batch_log_prob ! i)[t := v]]) batch_rewards = Inr m'"
      "m' < m"
      by (auto simp: id reward_to_go_fl_exact)
    then show ?thesis using r by (simp add: id optimize_model_loss_fl_exact)
  qed
  with r le show ?thesis by blast
qed

theorem loss_never_increases_witness:
  "mono round_f32 \<and>
   length [[0, 1 :: real]] = length [[- 5, - 1 :: real]] \<and>
   length ([[0, 1 :: real]] ! 0) = length ([[- 5, - 1 :: real]] ! 0) \<and>
   (0::nat) < length [[- 5, - 1 :: real]] \<and>
   (1::nat) < length ([[- 5, - 1 :: real]] ! 0) \<and>
   0 < reward_to_go_fl round_f32 1 ([[0, 1]] ! 0) ! 1 \<and>
   [[- 5, - 1 :: real]] ! 0 ! 1 < - (1 / 2) \<and>
   optimize_model_loss_fl round_f32 1 [[- 5, - 1]] [[0, 1]] = Inr 6 \<and>
   optimize_model_loss_fl round_f32 1 [[- 5, - (1 / 2)]] [[0, 1]] = Inr (11 / 2) \<and>
   (11 / 2 :: real) \<le> 6"
proof -
  have h: "\<forall>j<length [[- 5, - 1 :: real]].
             length ([[0, 1 :: real]] ! j) = length ([[- 5, - 1 :: real]] ! j)"
    by simp
  have p: "0 < reward_to_go_fl round_f32 1 ([[0, 1]] ! 0) ! 1"
    by (simp add: example_rtg_f32)
  from loss_never_increases [of round_f32 "[[0, 1]]" "[[- 5, - 1]]" 0 1 1 "- (1 / 2)"]
    mono_round_f32 h p
  show ?thesis using example_loss_f32_one example_loss_f32_half by simp
qed

end
